theory Spec2Isabelle
  imports Complex_Main "HOL-Library.Log_Nat"
begin

section \<open>Embedded axis controller (microcontroller\_code.ino)\<close>

subsection \<open>The stepper library, as far as the sketch observes it\<close>

text \<open>
  The sketch drives three \<^verbatim>\<open>AccelStepper\<close> objects. The library is external; of each
  object the model keeps the two step counters the sketch reads and writes through the
  library interface (\<^verbatim>\<open>_currentPos\<close>, \<^verbatim>\<open>_targetPos\<close>, C type \<^verbatim>\<open>long\<close>, here
  \<^typ>\<open>int\<close>: no command of the host comes near 32 bits), and two history variables:
  \<open>zeroings\<close> counts the calls of \<^verbatim>\<open>setCurrentPosition\<close>, the one library call that
  overwrites the step counter without stepping, and \<open>shaft\<close> is the sum of the steps the
  motor has made since power-up, which no library call overwrites: where the axis is, as
  opposed to where the step counter says it is. The speed profile that the
  library computes in real time (\<^verbatim>\<open>_speed\<close>, \<^verbatim>\<open>_maxSpeed\<close>, \<^verbatim>\<open>_acceleration\<close>) is left to
  the environment: what \<^verbatim>\<open>run()\<close> steps, what \<^verbatim>\<open>speed()\<close> returns and how far
  \<^verbatim>\<open>stop()\<close> needs to brake are inputs of a controller cycle.
\<close>

record motor =
  currentPos :: int
  targetPos :: int
  zeroings :: nat
  shaft :: int

definition setCurrentPosition :: "int \<Rightarrow> motor \<Rightarrow> motor" where
  "setCurrentPosition p m = m\<lparr>currentPos := p, targetPos := p, zeroings := zeroings m + 1\<rparr>"

definition moveTo :: "int \<Rightarrow> motor \<Rightarrow> motor" where
  "moveTo absolute m = m\<lparr>targetPos := absolute\<rparr>"

definition move :: "int \<Rightarrow> motor \<Rightarrow> motor" where
  "move relative m = moveTo (currentPos m + relative) m"

text \<open>\<^verbatim>\<open>runToPosition()\<close> blocks until the target is reached, stepping all the way.\<close>

definition runToPosition :: "motor \<Rightarrow> motor" where
  "runToPosition m =
     m\<lparr>currentPos := targetPos m, shaft := shaft m + (targetPos m - currentPos m)\<rparr>"

text \<open>
  \<^verbatim>\<open>stop()\<close> retargets the motor to the nearest position it can brake to: nothing when the
  speed is zero, else \<^verbatim>\<open>move(\<plusminus>stepsToStop)\<close>. The signed braking distance \<open>b\<close> comes
  from the environment (\<open>0\<close> for a motor at rest).
\<close>

definition stop :: "int \<Rightarrow> motor \<Rightarrow> motor" where
  "stop b m = (if b = 0 then m else move b m)"

text \<open>\<^verbatim>\<open>run()\<close> makes the steps that are due; \<open>d\<close> is what the environment lets it step.\<close>

definition run :: "int \<Rightarrow> motor \<Rightarrow> motor" where
  "run d m = m\<lparr>currentPos := currentPos m + d, shaft := shaft m + d\<rparr>"

subsection \<open>Pins, limit switches and status lines\<close>

definition stageLimitPin :: nat where "stageLimitPin = 14"
definition trackBottomLimitPin :: nat where "trackBottomLimitPin = 25"
definition trackTopLimitPin :: nat where "trackTopLimitPin = 23"
definition nodForwardLimitPin :: nat where "nodForwardLimitPin = 24"
definition nodBackLimitPin :: nat where "nodBackLimitPin = 22"
definition estopPin :: nat where "estopPin = 53"

definition stageMicrosteps :: int where "stageMicrosteps = 16"
definition trackMicrosteps :: int where "trackMicrosteps = 4"
definition nodMicrosteps :: int where "nodMicrosteps = 64"

datatype motor_id = StageMotor | TrackMotor | NodMotor

record LimitSwitch =
  ls_id :: string
  backoff :: int
  direction :: int
  axis :: nat
  ls_motor :: motor_id
  pin :: nat

definition trackTopLimitSwitch :: LimitSwitch where
  "trackTopLimitSwitch = \<lparr>ls_id = ''TTLS'', backoff = 50 * trackMicrosteps, direction = 1,
     axis = 1, ls_motor = TrackMotor, pin = trackTopLimitPin\<rparr>"

definition trackBottomLimitSwitch :: LimitSwitch where
  "trackBottomLimitSwitch = \<lparr>ls_id = ''TBLS'', backoff = 50 * trackMicrosteps, direction = - 1,
     axis = 1, ls_motor = TrackMotor, pin = trackBottomLimitPin\<rparr>"

definition nodForwardLimitSwitch :: LimitSwitch where
  "nodForwardLimitSwitch = \<lparr>ls_id = ''NFLS'', backoff = 10 * nodMicrosteps, direction = 1,
     axis = 2, ls_motor = NodMotor, pin = nodForwardLimitPin\<rparr>"

definition nodBackLimitSwitch :: LimitSwitch where
  "nodBackLimitSwitch = \<lparr>ls_id = ''NBLS'', backoff = 10 * nodMicrosteps, direction = - 1,
     axis = 2, ls_motor = NodMotor, pin = nodBackLimitPin\<rparr>"

text \<open>
  The lines the sketch prints, one constructor per leading token: \<^verbatim>\<open>E\<close>, \<^verbatim>\<open>P ...\<close>,
  \<^verbatim>\<open>R ...\<close>, \<^verbatim>\<open>H <axis>\<close>, \<^verbatim>\<open>L <id> <position>\<close> (\<^verbatim>\<open>L SOLS\<close> carries no position) and
  \<^verbatim>\<open>W <id>\<close>. A position report carries the three step positions; the \<^verbatim>\<open>isRunning\<close> flags
  printed between them and the payload of a rate report belong to the speed profile.
\<close>

datatype status =
    EmergencyStop
  | PositionReport int int int
  | RateReport
  | HomingComplete nat
  | LimitHit string "int option"
  | ReverseWind string

subsection \<open>Controller state and the inputs of one cycle\<close>

definition MAX_DIGITS :: nat where "MAX_DIGITS = 10"

record ctrl =
  stageMotor :: motor
  trackMotor :: motor
  nodMotor :: motor
  incomingBytes :: "char list"
  byteCounter :: nat
  lastNonzeroTrackMotorSpeed :: real
  homing :: "int list"
  needs_homing :: "bool list"
  serial_out :: "status list"

text \<open>
  What one pass through \<^verbatim>\<open>loop()\<close> reads from outside: \<open>digitalRead p k\<close> is the value of
  the \<open>k\<close>-th read of pin \<open>p\<close> in this cycle, \<open>rx\<close> the bytes \<^verbatim>\<open>Serial.read()\<close> delivers
  while \<^verbatim>\<open>Serial.available() > 0\<close>, \<open>stepped\<close>, \<open>braking\<close> and \<open>trackSpeed\<close> the
  behaviour of the stepper library named above.
\<close>

record inputs =
  digitalRead :: "nat \<Rightarrow> nat \<Rightarrow> bool"
  rx :: "char list"
  stepped :: "motor_id \<Rightarrow> int"
  braking :: "motor_id \<Rightarrow> int"
  trackSpeed :: real

fun get_motor :: "motor_id \<Rightarrow> ctrl \<Rightarrow> motor" where
  "get_motor StageMotor s = stageMotor s"
| "get_motor TrackMotor s = trackMotor s"
| "get_motor NodMotor s = nodMotor s"

fun upd_motor :: "motor_id \<Rightarrow> (motor \<Rightarrow> motor) \<Rightarrow> ctrl \<Rightarrow> ctrl" where
  "upd_motor StageMotor f s = s\<lparr>stageMotor := f (stageMotor s)\<rparr>"
| "upd_motor TrackMotor f s = s\<lparr>trackMotor := f (trackMotor s)\<rparr>"
| "upd_motor NodMotor f s = s\<lparr>nodMotor := f (nodMotor s)\<rparr>"

definition println :: "status \<Rightarrow> ctrl \<Rightarrow> ctrl" where
  "println l s = s\<lparr>serial_out := serial_out s @ [l]\<rparr>"

text \<open>The debounce: three reads of the pin in a row, joined by \<^verbatim>\<open>&&\<close>.\<close>

definition triggered :: "inputs \<Rightarrow> nat \<Rightarrow> bool" where
  "triggered i p = (digitalRead i p 0 \<and> digitalRead i p 1 \<and> digitalRead i p 2)"

text \<open>The test that the track is reverse-wound: the switch hit from the wrong direction.\<close>

definition reverse_wound :: "LimitSwitch \<Rightarrow> ctrl \<Rightarrow> bool" where
  "reverse_wound ls s =
     ((pin ls = trackTopLimitPin \<and> lastNonzeroTrackMotorSpeed s < 0)
      \<or> (pin ls = trackBottomLimitPin \<and> lastNonzeroTrackMotorSpeed s > 0))"

definition checkAndHandleLimitSwitch :: "inputs \<Rightarrow> LimitSwitch \<Rightarrow> ctrl \<Rightarrow> ctrl" where
  "checkAndHandleLimitSwitch i ls s =
     (if triggered i (pin ls) then
        let hit_position = currentPos (get_motor (ls_motor ls) s);
            s1 = upd_motor (ls_motor ls) (setCurrentPosition 0) s
        in if reverse_wound ls s1
           then
             upd_motor (ls_motor ls) (\<lambda>m. runToPosition (move (direction ls * backoff ls) m))
               ((println (ReverseWind (ls_id ls)) s1)
                  \<lparr>homing := (homing s1)[1 := 0], needs_homing := (needs_homing s1)[1 := True]\<rparr>)
           else
             let s2 = upd_motor (ls_motor ls)
                        (\<lambda>m. runToPosition (move (- 1 * direction ls * backoff ls) m)) s1
             in if homing s2 ! axis ls = 1 \<and> direction ls = - 1
                then println (HomingComplete (axis ls))
                       (s2\<lparr>homing := (homing s2)[axis ls := 0],
                           needs_homing := (needs_homing s2)[axis ls := False]\<rparr>)
                else println (LimitHit (ls_id ls) (Some hit_position))
                       (s2\<lparr>needs_homing := (needs_homing s2)[axis ls := True]\<rparr>)
      else s)"


subsection \<open>Command parsing and dispatch\<close>

text \<open>
  A command line is \<^verbatim>\<open>[type][axis][sign][digits]\n\<close>. The sketch indexes the receive
  buffer directly: byte 0 is the command type, byte 1 the axis digit, byte 2 the sign, and
  the bytes from index 3 up to the one before the newline are read as decimal digits
  (whatever they are).
\<close>

definition parse_axis :: "char list \<Rightarrow> int" where
  "parse_axis buf = of_char (buf ! 1) - of_char CHR ''0''"

definition parse_value :: "nat \<Rightarrow> char list \<Rightarrow> int" where
  "parse_value n buf =
     (let v = foldl (\<lambda>v k. v * 10 + of_char (buf ! k) - of_char CHR ''0'') 0 [3..<n - 1]
      in if buf ! 2 = CHR ''-'' then - 1 * v else v)"

text \<open>The \<^verbatim>\<open>switch (axis)\<close> that picks the motor; \<open>None\<close> is the \<^verbatim>\<open>NULL\<close> pointer.\<close>

definition select_motor :: "int \<Rightarrow> motor_id option" where
  "select_motor a =
     (if a = 0 then Some StageMotor
      else if a = 1 then Some TrackMotor
      else if a = 2 then Some NodMotor
      else None)"

definition report_position :: "ctrl \<Rightarrow> ctrl" where
  "report_position s =
     println (PositionReport (currentPos (stageMotor s)) (currentPos (trackMotor s))
                (currentPos (nodMotor s))) s"

text \<open>
  The \<^verbatim>\<open>switch (incomingBytes[0])\<close>. The result \<open>None\<close> is undefined behaviour of the C
  program: a call through the \<^verbatim>\<open>NULL\<close> motor pointer, or a write to \<^verbatim>\<open>homing[axis]\<close>
  outside the array. Case \<^verbatim>\<open>'E'\<close> has no \<^verbatim>\<open>break\<close> and runs into case \<^verbatim>\<open>'P'\<close>.
\<close>

definition dispatch :: "inputs \<Rightarrow> ctrl \<Rightarrow> ctrl option" where
  "dispatch i s =
     (let buf = incomingBytes s;
          a = parse_axis buf;
          v = parse_value (byteCounter s) buf;
          mot = select_motor a;
          c = buf ! 0
      in if c = CHR ''M'' then map_option (\<lambda>m. upd_motor m (moveTo v) s) mot
         else if c = CHR ''J'' then map_option (\<lambda>m. upd_motor m (move v) s) mot
         else if c = CHR ''S'' then map_option (\<lambda>m. s) mot
         else if c = CHR ''A'' then map_option (\<lambda>m. s) mot
         else if c = CHR ''H'' then
           map_option (\<lambda>m. upd_motor m (move (- 1000000)) (s\<lparr>homing := (homing s)[nat a := 1]\<rparr>)) mot
         else if c = CHR ''F'' then
           map_option (\<lambda>m. upd_motor m (\<lambda>x. runToPosition (move v x)) s) mot
         else if c = CHR ''E'' then
           map_option (\<lambda>m. report_position
                         ((upd_motor m (stop (braking i m)) s)\<lparr>homing := (homing s)[nat a := 0]\<rparr>)) mot
         else if c = CHR ''P'' then Some (report_position s)
         else if c = CHR ''R'' then Some (println RateReport s)
         else Some s)"

text \<open>
  The \<^verbatim>\<open>while (Serial.available() > 0)\<close> loop over the bytes of this cycle. A byte stored
  beyond the \<open>MAX_DIGITS + 3\<close> bytes of the buffer is undefined behaviour.
\<close>

fun read_serial :: "inputs \<Rightarrow> char list \<Rightarrow> ctrl \<Rightarrow> ctrl option" where
  "read_serial i [] s = Some s"
| "read_serial i (b # bs) s =
     (if byteCounter s < length (incomingBytes s) then
        let s1 = s\<lparr>incomingBytes := (incomingBytes s)[byteCounter s := b],
                   byteCounter := byteCounter s + 1\<rparr>
        in if b = CHR 0x0A then
             (case dispatch i s1 of
                None \<Rightarrow> None
              | Some s2 \<Rightarrow>
                  read_serial i bs
                    (s2\<lparr>byteCounter := 0,
                        incomingBytes := replicate (MAX_DIGITS + 3) (CHR 0x00)\<rparr>))
           else read_serial i bs s1
      else None)"

subsection \<open>The controller cycle\<close>

text \<open>
  The emergency-stop branch of \<^verbatim>\<open>loop()\<close>. Its statement
  \<^verbatim>\<open>bool needs_homing[3] = {1, 1, 1};\<close> declares a new array local to the block: the
  global array of the same name is not written.
\<close>

definition emergency_stop :: "ctrl \<Rightarrow> ctrl" where
  "emergency_stop s =
     (println EmergencyStop s)
       \<lparr>stageMotor := setCurrentPosition 0 (stageMotor s),
        trackMotor := setCurrentPosition 0 (trackMotor s),
        nodMotor := setCurrentPosition 0 (nodMotor s)\<rparr>"

text \<open>The three \<^verbatim>\<open>run()\<close> calls after the commands have been read.\<close>

definition run_motors :: "inputs \<Rightarrow> ctrl \<Rightarrow> ctrl" where
  "run_motors i s =
     s\<lparr>stageMotor := run (stepped i StageMotor) (stageMotor s),
       trackMotor := run (stepped i TrackMotor) (trackMotor s),
       nodMotor := run (stepped i NodMotor) (nodMotor s)\<rparr>"

text \<open>The stage has one switch, looked at only while the stage is homing.\<close>

definition check_stage_limit :: "inputs \<Rightarrow> ctrl \<Rightarrow> ctrl" where
  "check_stage_limit i s =
     (if triggered i stageLimitPin then
        if homing s ! 0 = 1 then
          let s1 = println (LimitHit ''SOLS'' None) (s\<lparr>stageMotor := move 100 (stageMotor s)\<rparr>);
              s2 = s1\<lparr>stageMotor := setCurrentPosition 0 (runToPosition (stageMotor s1)),
                      homing := (homing s1)[0 := 0],
                      needs_homing := (needs_homing s1)[0 := False]\<rparr>
          in println (HomingComplete 0) s2
        else s
      else s)"

definition check_limits :: "inputs \<Rightarrow> ctrl \<Rightarrow> ctrl" where
  "check_limits i s =
     check_stage_limit i
       (checkAndHandleLimitSwitch i nodBackLimitSwitch
         (checkAndHandleLimitSwitch i nodForwardLimitSwitch
           (checkAndHandleLimitSwitch i trackBottomLimitSwitch
             (checkAndHandleLimitSwitch i trackTopLimitSwitch s))))"

definition update_last_speed :: "inputs \<Rightarrow> ctrl \<Rightarrow> ctrl" where
  "update_last_speed i s =
     (if trackSpeed i \<noteq> 0 then s\<lparr>lastNonzeroTrackMotorSpeed := trackSpeed i\<rparr> else s)"

definition loop :: "inputs \<Rightarrow> ctrl \<Rightarrow> ctrl option" where
  "loop i s =
     (if digitalRead i estopPin 0 then Some (emergency_stop s)
      else case read_serial i (rx i) s of
             None \<Rightarrow> None
           | Some s1 \<Rightarrow> Some (update_last_speed i (check_limits i (run_motors i s1))))"

text \<open>The globals as initialised, after \<^verbatim>\<open>setup()\<close>.\<close>

definition initial :: ctrl where
  "initial =
     \<lparr>stageMotor = \<lparr>currentPos = 0, targetPos = 0, zeroings = 0, shaft = 0\<rparr>,
      trackMotor = \<lparr>currentPos = 0, targetPos = 0, zeroings = 0, shaft = 0\<rparr>,
      nodMotor = \<lparr>currentPos = 0, targetPos = 0, zeroings = 0, shaft = 0\<rparr>,
      incomingBytes = replicate (MAX_DIGITS + 3) (CHR 0x00),
      byteCounter = 0,
      lastNonzeroTrackMotorSpeed = 0,
      homing = [0, 0, 0],
      needs_homing = [True, True, True],
      serial_out = []\<rparr>"

text \<open>Consecutive cycles, each with its own inputs.\<close>

fun cycles :: "inputs list \<Rightarrow> ctrl \<Rightarrow> ctrl option" where
  "cycles [] s = Some s"
| "cycles (i # is) s = (case loop i s of None \<Rightarrow> None | Some s1 \<Rightarrow> cycles is s1)"

text \<open>An idle environment: no pin is high, nothing arrives, nothing moves.\<close>

definition quiet :: inputs where
  "quiet = \<lparr>digitalRead = (\<lambda>p k. False), rx = [], stepped = (\<lambda>m. 0), braking = (\<lambda>m. 0),
            trackSpeed = 0\<rparr>"

subsection \<open>Vocabulary for the statements about a cycle\<close>

text \<open>The switch at which the sketch can complete the homing of axis \<open>a\<close>.\<close>

definition home_pin :: "nat \<Rightarrow> nat" where
  "home_pin a =
     (if a = 0 then stageLimitPin else if a = 1 then trackBottomLimitPin else nodBackLimitPin)"

text \<open>The step counter of motor \<open>m\<close> was overwritten between the states \<open>s\<close> and \<open>s'\<close>.\<close>

definition zeroed :: "motor_id \<Rightarrow> ctrl \<Rightarrow> ctrl \<Rightarrow> bool" where
  "zeroed m s s' = (zeroings (get_motor m s) < zeroings (get_motor m s'))"


text \<open>A command line as the host sends it: the text and a newline.\<close>

definition line :: "string \<Rightarrow> char list" where
  "line l = l @ [CHR 0x0A]"

section \<open>Host motion sequencer (control.pyw)\<close>

subsection \<open>State, observable effects and the event queue\<close>

text \<open>
  Of the \<^verbatim>\<open>ControlUI\<close> object the sweep reads and writes three flags, the target list and
  the \<^verbatim>\<open>is_running\<close> entries of \<^verbatim>\<open>motor_data\<close> (\<open>None\<close> until the first position report,
  then the integer the controller sent). What it does to the outside is kept as a list of
  effects, in order: a line on the terminal pane, a command written to the serial link, a
  call of \<^verbatim>\<open>move_to_position\<close> (which computes the three step targets and sends one Move
  command per axis), a call of \<^verbatim>\<open>capture_image\<close>, and an emission of the
  \<^verbatim>\<open>user_txt_input\<close> signal. Coordinates are Python floats; the sweep only passes them on,
  so their type is a parameter \<open>'p\<close>.
\<close>

datatype 'p host_event =
    Terminal string
  | Sent string
  | MoveToPosition 'p 'p 'p
  | CaptureImage
  | UserTxtInput string

text \<open>
  The program is one thread under the Qt event loop. A handler runs to its end before the
  next event is delivered, unless it starts an event loop of its own, as
  \<^verbatim>\<open>wait_for_all_motors_stopped\<close> does. The events considered are the timeout of the serial
  timer, which calls \<^verbatim>\<open>poll_serial\<close> (it carries the position reports that are waiting on
  the serial port, each with the three \<^verbatim>\<open>isRunning\<close> values of the controller), a click on
  the cancel button of the sequence and a click on the STOP button. The field \<open>pending\<close> holds
  the events that have not been delivered yet, in the order of their delivery.
\<close>

datatype gui_event =
    SerialTimer "(int \<times> int \<times> int) list"
  | CancelClicked
  | StopClicked

record 'p host =
  cancel_sequence_flag :: bool
  sequence_active_flag :: bool
  needs_homing_flag :: bool
  target_positions :: "'p option list"
  is_running :: "int option list"
  pending :: "gui_event list"
  events :: "'p host_event list"

definition emit :: "'p host_event \<Rightarrow> 'p host \<Rightarrow> 'p host" where
  "emit e st = st\<lparr>events := events st @ [e]\<rparr>"

definition output_to_terminal :: "string \<Rightarrow> 'p host \<Rightarrow> 'p host" where
  "output_to_terminal message st = emit (Terminal message) st"

definition send_command :: "string \<Rightarrow> 'p host \<Rightarrow> 'p host" where
  "send_command command st = emit (Sent command) st"

text \<open>\<^verbatim>\<open>str(axis)\<close> for the three axis numbers.\<close>

definition str_axis :: "nat \<Rightarrow> string" where
  "str_axis a = (if a = 0 then ''0'' else if a = 1 then ''1'' else ''2'')"

definition stop_motor :: "nat \<Rightarrow> 'p host \<Rightarrow> 'p host" where
  "stop_motor a st =
     send_command (''E'' @ str_axis a) (st\<lparr>target_positions := (target_positions st)[a := None]\<rparr>)"

definition stop_all_motors :: "'p host \<Rightarrow> 'p host" where
  "stop_all_motors st = stop_motor 2 (stop_motor 1 (stop_motor 0 st))"

definition end_sequence :: "'p host \<Rightarrow> 'p host" where
  "end_sequence st = st\<lparr>sequence_active_flag := False\<rparr>"

text \<open>\<^verbatim>\<open>cancel_sequence\<close>, with the spin-set page of the sequence stack selected.\<close>

definition cancel_sequence :: "'p host \<Rightarrow> 'p host" where
  "cancel_sequence st =
     end_sequence
       (stop_all_motors
         ((emit (UserTxtInput ''abort'')
            (output_to_terminal ''Spin set capture cancelled'' st))
          \<lparr>cancel_sequence_flag := True\<rparr>))"

definition stop_button_clicked :: "'p host \<Rightarrow> 'p host" where
  "stop_button_clicked st =
     (if sequence_active_flag st then cancel_sequence st else stop_all_motors st)"

subsection \<open>Polling the controller\<close>

text \<open>The truth value Python gives an \<^verbatim>\<open>is_running\<close> entry.\<close>

definition truthy :: "int option \<Rightarrow> bool" where
  "truthy v = (case v of None \<Rightarrow> False | Some n \<Rightarrow> n \<noteq> 0)"

text \<open>
  One axis of one position report, inside \<^verbatim>\<open>poll_serial\<close>: a motor that has just stopped
  loses its target, and if the other two entries say "not running" the signal
  \<^verbatim>\<open>all_motors_stopped\<close> is emitted; then the entry of the axis is overwritten. The boolean
  carried along tells whether the signal has been emitted.
\<close>

fun report_axis :: "int \<Rightarrow> nat \<Rightarrow> bool \<times> 'p host \<Rightarrow> bool \<times> 'p host" where
  "report_axis r a (sig, st) =
     (let just_stopped = (r = 0 \<and> is_running st ! a \<noteq> None \<and> is_running st ! a \<noteq> Some r);
          others_stopped = list_all (\<lambda>j. \<not> truthy (is_running st ! j))
                             (filter (\<lambda>j. j \<noteq> a) [0, 1, 2]);
          st1 = (if just_stopped
                 then st\<lparr>target_positions := (target_positions st)[a := None]\<rparr> else st)
      in (sig \<or> (just_stopped \<and> others_stopped),
          st1\<lparr>is_running := (is_running st1)[a := Some r]\<rparr>))"

definition position_report :: "int \<times> int \<times> int \<Rightarrow> bool \<times> 'p host \<Rightarrow> bool \<times> 'p host" where
  "position_report l p =
     report_axis (snd (snd l)) 2 (report_axis (fst (snd l)) 1 (report_axis (fst l) 0 p))"

text \<open>\<^verbatim>\<open>poll_serial\<close> reads the lines that are waiting and then asks for the next report.\<close>

definition poll_serial :: "(int \<times> int \<times> int) list \<Rightarrow> 'p host \<Rightarrow> bool \<times> 'p host" where
  "poll_serial lines st =
     (case foldl (\<lambda>p l. position_report l p) (False, st) lines of
        (sig, st1) \<Rightarrow> (sig, send_command ''P'' st1))"

text \<open>
  The handler of an event; the boolean tells whether \<^verbatim>\<open>all_motors_stopped\<close> was emitted
  while it ran. The cancel button is visible from \<^verbatim>\<open>start_sequence\<close> to \<^verbatim>\<open>end_sequence\<close>,
  which is when \<^verbatim>\<open>sequence_active_flag\<close> is set.
\<close>

fun handle :: "gui_event \<Rightarrow> 'p host \<Rightarrow> bool \<times> 'p host" where
  "handle (SerialTimer lines) st = poll_serial lines st"
| "handle CancelClicked st = (False, if sequence_active_flag st then cancel_sequence st else st)"
| "handle StopClicked st = (False, stop_button_clicked st)"

text \<open>
  The main event loop, while no handler is running: it delivers the events one by one.
  Nothing is connected to \<^verbatim>\<open>all_motors_stopped\<close> then.
\<close>

definition deliver :: "gui_event list \<Rightarrow> 'p host \<Rightarrow> 'p host" where
  "deliver es st = foldl (\<lambda>st e. snd (handle e st)) st es"

subsection \<open>One waypoint\<close>

text \<open>
  The event loop inside \<^verbatim>\<open>wait_for_all_motors_stopped\<close>: \<^verbatim>\<open>loop.exec_()\<close> delivers the
  pending events until a handler has emitted \<^verbatim>\<open>all_motors_stopped\<close>, whose slot calls
  \<^verbatim>\<open>loop.quit()\<close>. \<open>None\<close>: the events given run out and the loop is still waiting.
\<close>

fun exec_loop :: "gui_event list \<Rightarrow> 'p host \<Rightarrow> 'p host option" where
  "exec_loop [] st = None"
| "exec_loop (e # es) st =
     (case handle e st of
        (True, st1) \<Rightarrow> Some (st1\<lparr>pending := es\<rparr>)
      | (False, st1) \<Rightarrow> exec_loop es st1)"

text \<open>
  \<^verbatim>\<open>wait_for_all_motors_stopped\<close> returns at once when no entry of \<^verbatim>\<open>motor_data\<close> says
  that a motor is running. The entries are written by \<^verbatim>\<open>poll_serial\<close> only: they are those
  of the last poll that was delivered.
\<close>

definition wait_for_all_motors_stopped :: "'p host \<Rightarrow> 'p host option" where
  "wait_for_all_motors_stopped st =
     (if \<not> list_ex truthy (is_running st) then Some st else exec_loop (pending st) st)"

definition move_capture_wait :: "'p \<Rightarrow> 'p \<Rightarrow> 'p \<Rightarrow> 'p host \<Rightarrow> 'p host option" where
  "move_capture_wait theta phi h st =
     map_option (emit CaptureImage)
       (wait_for_all_motors_stopped (emit (MoveToPosition theta phi h) st))"

subsection \<open>The grid sweep\<close>

text \<open>
  The two nested \<^verbatim>\<open>for\<close> loops of \<^verbatim>\<open>capture_spin_set\<close>. The first component of the result
  tells whether the \<^verbatim>\<open>return\<close> inside the loops was taken.
\<close>

fun sweep_cols :: "'p \<times> 'p \<Rightarrow> 'p list \<Rightarrow> 'p host \<Rightarrow> (bool \<times> 'p host) option" where
  "sweep_cols r [] st = Some (False, st)"
| "sweep_cols r (c # cs) st =
     (if cancel_sequence_flag st then Some (True, st\<lparr>cancel_sequence_flag := False\<rparr>)
      else case move_capture_wait c (fst r) (snd r) st of
             None \<Rightarrow> None
           | Some st1 \<Rightarrow> sweep_cols r cs st1)"

fun sweep_rows :: "('p \<times> 'p) list \<Rightarrow> 'p list \<Rightarrow> 'p host \<Rightarrow> (bool \<times> 'p host) option" where
  "sweep_rows [] cols st = Some (False, st)"
| "sweep_rows (r # rs) cols st =
     (case sweep_cols r cols st of
        None \<Rightarrow> None
      | Some (True, st1) \<Rightarrow> Some (True, st1)
      | Some (False, st1) \<Rightarrow> sweep_rows rs cols st1)"

definition capture_spin_set :: "('p \<times> 'p) list \<Rightarrow> 'p list \<Rightarrow> 'p host \<Rightarrow> 'p host option" where
  "capture_spin_set row_values col_values st =
     (case sweep_rows row_values col_values
             (output_to_terminal ''Starting spin set capture sequence...'' st) of
        None \<Rightarrow> None
      | Some (True, st1) \<Rightarrow> Some st1
      | Some (False, st1) \<Rightarrow>
          Some (end_sequence (output_to_terminal ''Spin set capture sequence complete'' st1)))"

text \<open>
  \<^verbatim>\<open>start_sequence\<close>, the handler of the START button, with the spin-set page selected. It
  does not write \<^verbatim>\<open>cancel_sequence_flag\<close>.
\<close>

definition start_sequence :: "('p \<times> 'p) list \<Rightarrow> 'p list \<Rightarrow> 'p host \<Rightarrow> 'p host option" where
  "start_sequence row_values col_values st =
     (if needs_homing_flag st
      then Some (output_to_terminal ''All axes need to be homed before continuing operation'' st)
      else capture_spin_set row_values col_values (st\<lparr>sequence_active_flag := True\<rparr>))"

text \<open>
  Where the grid comes from. Either list is read from the positions file, or computed:
  \<^verbatim>\<open>np.linspace(0, stop, num=n, endpoint=False)\<close> yields \<open>n\<close> samples, the \<open>k\<close>-th being
  \<open>sample k\<close>; each row pairs an elevation with the height shown in the position field.
\<close>

definition linspace :: "(nat \<Rightarrow> 'p) \<Rightarrow> nat \<Rightarrow> 'p list" where
  "linspace sample num = map sample [0..<num]"

definition grid_rows :: "(nat \<Rightarrow> 'p) \<Rightarrow> nat \<Rightarrow> 'p \<Rightarrow> ('p \<times> 'p) list" where
  "grid_rows sample num_rows h = map (\<lambda>phi. (phi, h)) (linspace sample num_rows)"

text \<open>The fields as \<^verbatim>\<open>__init__\<close> sets them, with no event pending.\<close>

definition startup :: "'p host" where
  "startup =
     \<lparr>cancel_sequence_flag = False, sequence_active_flag = False, needs_homing_flag = False,
      target_positions = [None, None, None], is_running = [None, None, None],
      pending = [], events = []\<rparr>"

text \<open>Events that arrive while a handler is running are queued.\<close>

definition arrive :: "gui_event list \<Rightarrow> 'p host \<Rightarrow> 'p host" where
  "arrive es st = st\<lparr>pending := pending st @ es\<rparr>"

subsection \<open>Vocabulary for the statements about a sweep\<close>

text \<open>Row-major order: rows outer, columns inner; a waypoint is \<open>(\<theta>, \<phi>, h)\<close>.\<close>

definition row_major :: "('p \<times> 'p) list \<Rightarrow> 'p list \<Rightarrow> ('p \<times> 'p \<times> 'p) list" where
  "row_major rows cols = concat (map (\<lambda>r. map (\<lambda>c. (c, fst r, snd r)) cols) rows)"

text \<open>What a log shows of the sweep: the waypoints moved to, and the commands sent.\<close>

fun moves :: "'p host_event list \<Rightarrow> ('p \<times> 'p \<times> 'p) list" where
  "moves [] = []"
| "moves (MoveToPosition t p h # es) = (t, p, h) # moves es"
| "moves (e # es) = moves es"

fun captures :: "'p host_event list \<Rightarrow> nat" where
  "captures [] = 0"
| "captures (CaptureImage # es) = Suc (captures es)"
| "captures (e # es) = captures es"

fun commands :: "'p host_event list \<Rightarrow> string list" where
  "commands [] = []"
| "commands (Sent c # es) = c # commands es"
| "commands (e # es) = commands es"

text \<open>The log entries of a waypoint whose wait returns at once.\<close>

definition waypoint_log :: "'p \<times> 'p \<times> 'p \<Rightarrow> 'p host_event list" where
  "waypoint_log w = [MoveToPosition (fst w) (fst (snd w)) (snd (snd w)), CaptureImage]"

section \<open>Python floats\<close>

text \<open>
  A Python \<^verbatim>\<open>float\<close> is an IEEE 754 binary64 number. A finite one is modelled by the real
  number it denotes; an arithmetic operation computes the exact result and rounds it to
  the nearest double, ties to even (\<open>dbl\<close>). A result that is no finite double, because the
  operation overflows to infinity or raises (\<^verbatim>\<open>ZeroDivisionError\<close>, \<^verbatim>\<open>OverflowError\<close>), is
  \<open>None\<close>. Signed zeros are not told apart; no function below can tell them apart either.
\<close>

definition pow2 :: "int \<Rightarrow> real" where
  "pow2 e = (if 0 \<le> e then 2 ^ nat e else 1 / 2 ^ nat (- e))"

text \<open>
  The exponent of the binade of \<open>x\<close>: the largest \<open>e\<close> from \<open>-1022\<close> (where the subnormal
  numbers begin) with \<open>2\<^sup>e \<le> \<bar>x\<bar>\<close>, found bit by bit.
\<close>

definition dexp :: "real \<Rightarrow> int" where
  "dexp x =
     - 1022 + int (foldl (\<lambda>acc b. if pow2 (- 1022 + int (acc + b)) \<le> \<bar>x\<bar> then acc + b else acc)
                     0 [1024, 512, 256, 128, 64, 32, 16, 8, 4, 2, 1])"

text \<open>Rounding to the nearest integer, ties to the even one.\<close>

definition rne :: "real \<Rightarrow> int" where
  "rne q =
     (let f = \<lfloor>q\<rfloor>; r = q - of_int f
      in if r < 1 / 2 then f else if 1 / 2 < r then f + 1 else if even f then f else f + 1)"

text \<open>Doubles of the binade of \<open>x\<close> are the multiples of \<open>2\<^bsup>e - 52\<^esup>\<close>.\<close>

definition dbl :: "real \<Rightarrow> real" where
  "dbl x = (let q = pow2 (dexp x - 52) in of_int (rne (x / q)) * q)"

definition fl :: "real \<Rightarrow> real option" where
  "fl x = (let y = dbl x in if \<bar>y\<bar> < pow2 1024 then Some y else None)"

text \<open>
  The operations of Python the host code uses. An \<^verbatim>\<open>int\<close> operand of a mixed operation is
  converted to \<^verbatim>\<open>float\<close> first; \<^verbatim>\<open>int / int\<close> is the correctly rounded quotient of the two
  integers; \<^verbatim>\<open>int(x)\<close> truncates towards zero.
\<close>

definition float_of_int :: "int \<Rightarrow> real option" where
  "float_of_int n = fl (of_int n)"

definition fdiv :: "real \<Rightarrow> real \<Rightarrow> real option" where
  "fdiv a b = (if b = 0 then None else fl (a / b))"

definition fmul :: "real \<Rightarrow> real \<Rightarrow> real option" where
  "fmul a b = fl (a * b)"

definition fadd :: "real \<Rightarrow> real \<Rightarrow> real option" where
  "fadd a b = fl (a + b)"

definition fsub :: "real \<Rightarrow> real \<Rightarrow> real option" where
  "fsub a b = fl (a - b)"

definition int_truediv :: "int \<Rightarrow> int \<Rightarrow> real option" where
  "int_truediv a b = (if b = 0 then None else fl (of_int a / of_int b))"

definition py_int :: "real \<Rightarrow> int" where
  "py_int x = (if 0 \<le> x then \<lfloor>x\<rfloor> else \<lceil>x\<rceil>)"

text \<open>
  The square root, correctly rounded as IEEE 754 requires, computed with integers: the
  binade of the root is found bit by bit, as for \<open>dexp\<close> (the root of the least positive
  double is \<open>2\<^bsup>-537\<^esup>\<close>), then the integer part \<open>f\<close> of the root scaled to 53 bits; the
  scaled root is compared with \<open>f + 1/2\<close> by comparing the squares.
\<close>

definition sqrt_exp :: "real \<Rightarrow> int" where
  "sqrt_exp x =
     - 537 + int (foldl (\<lambda>acc b. if pow2 (- 537 + int (acc + b)) * pow2 (- 537 + int (acc + b)) \<le> x
                                then acc + b else acc)
                    0 [1024, 512, 256, 128, 64, 32, 16, 8, 4, 2, 1])"

definition isqrt :: "int \<Rightarrow> int" where
  "isqrt n =
     foldl (\<lambda>acc b. if (acc + b) * (acc + b) \<le> n then acc + b else acc)
       0 (map (\<lambda>i. 2 ^ i) (rev [0..<53]))"

definition dbl_sqrt :: "real \<Rightarrow> real" where
  "dbl_sqrt x =
     (if x = 0 then 0
      else let q = pow2 (sqrt_exp x - 52);
               X = x / (q * q);
               f = isqrt \<lfloor>X\<rfloor>;
               h = (of_int f + 1 / 2) * (of_int f + 1 / 2)
           in of_int (if X < h then f else if h < X then f + 1
                      else if even f then f else f + 1) * q)"

section \<open>Rates and percentages (control.pyw)\<close>

text \<open>
  \<^verbatim>\<open>percentage_to_rate\<close> computes \<^verbatim>\<open>int((percentage / 100.0) * 4000.0)\<close> from the integer
  of a rate field, and \<^verbatim>\<open>rate_to_percentage\<close> computes \<^verbatim>\<open>int(100 * rate / 4000.0)\<close>, here
  for an integer rate, as \<^verbatim>\<open>percentage_to_rate\<close> returns it: \<^verbatim>\<open>100 * rate\<close> is then a product
  of integers.
\<close>

definition percentage_to_rate :: "int \<Rightarrow> int option" where
  "percentage_to_rate percentage =
     Option.bind (float_of_int percentage) (\<lambda>p.
     Option.bind (fdiv p 100) (\<lambda>q.
     Option.bind (fmul q 4000) (\<lambda>r. Some (py_int r))))"

definition rate_to_percentage :: "int \<Rightarrow> int option" where
  "rate_to_percentage rate =
     Option.bind (float_of_int (100 * rate)) (\<lambda>a.
     Option.bind (fdiv a 4000) (\<lambda>q. Some (py_int q)))"

text \<open>A percentage set from the UI and read back: to a rate and back to a percentage.\<close>

definition rate_round_trip :: "int \<Rightarrow> int option" where
  "rate_round_trip p = Option.bind (percentage_to_rate p) rate_to_percentage"

section \<open>Calibration curves (control.pyw)\<close>

text \<open>
  The class constants. A decimal literal denotes the double nearest to it; a constant
  written as a sum of two literals is their rounded sum.
\<close>

definition STAGE_STEPS_PER_REVOLUTION :: int where
  "STAGE_STEPS_PER_REVOLUTION = 708839"

definition TRACK_MAX_STEPS :: int where
  "TRACK_MAX_STEPS = 780120 - 2 * (4 * 50)"

definition NOD_MAX_STEPS :: int where
  "NOD_MAX_STEPS = 143117 - 2 * (64 * 10)"

definition NOD_MAX_DEGREES :: "real option" where
  "NOD_MAX_DEGREES = fadd (dbl (299 / 10)) (dbl (274 / 10))"

definition TRACK_DEGREE_OFFSET :: real where
  "TRACK_DEGREE_OFFSET = dbl (167 / 10)"

definition NOD_DEGREE_OFFSET :: real where
  "NOD_DEGREE_OFFSET = dbl (299 / 10)"

text \<open>
  \<^verbatim>\<open>math.pow(x, 2)\<close> and \<^verbatim>\<open>math.sqrt(x)\<close>. The square root of IEEE 754 is correctly rounded,
  and the library raises \<^verbatim>\<open>ValueError\<close> for a negative argument. The power function of the C
  library is taken to be correctly rounded for a square; the squares of the step counts
  below are integers under \<open>2\<^sup>5\<^sup>3\<close>, which any \<^verbatim>\<open>pow\<close> with an error under one unit in the
  last place returns exactly.
\<close>

definition math_pow_2 :: "real \<Rightarrow> real option" where
  "math_pow_2 x = fl (x * x)"

definition math_sqrt :: "real \<Rightarrow> real option" where
  "math_sqrt x = (if x < 0 then None else Some (dbl_sqrt x))"

text \<open>
  The two conversions, axis 0 the rotation stage, 1 the track, 2 the nod. For any other
  axis no case of the \<^verbatim>\<open>match\<close> applies and the Python functions return \<^verbatim>\<open>None\<close>.
\<close>

definition steps_to_degrees :: "nat \<Rightarrow> int \<Rightarrow> real option" where
  "steps_to_degrees ax steps =
     (if ax = 0 then
        Option.bind (int_truediv steps STAGE_STEPS_PER_REVOLUTION) (\<lambda>a. fmul a 360)
      else if ax = 1 then
        Option.bind (float_of_int steps) (\<lambda>x.
        Option.bind (math_pow_2 x) (\<lambda>sq.
        Option.bind (fmul (dbl (344 / 10 ^ 13)) sq) (\<lambda>t1.
        Option.bind (fmul (dbl (111 / 10 ^ 6)) x) (\<lambda>t2.
        Option.bind (fadd t1 t2) (\<lambda>t3. fsub t3 TRACK_DEGREE_OFFSET)))))
      else if ax = 2 then
        Option.bind NOD_MAX_DEGREES (\<lambda>nmd.
        Option.bind (float_of_int NOD_MAX_STEPS) (\<lambda>n.
        Option.bind (fdiv nmd n) (\<lambda>r.
        Option.bind (float_of_int steps) (\<lambda>x.
        Option.bind (fmul r x) (\<lambda>t. fsub t NOD_DEGREE_OFFSET)))))
      else None)"

definition degrees_to_steps :: "nat \<Rightarrow> real \<Rightarrow> int option" where
  "degrees_to_steps ax degrees =
     (if ax = 0 then
        Option.bind (float_of_int STAGE_STEPS_PER_REVOLUTION) (\<lambda>n.
        Option.bind (fmul n degrees) (\<lambda>b.
        Option.bind (fdiv b 360) (\<lambda>q. Some (py_int q))))
      else if ax = 1 then
        Option.bind (fadd TRACK_DEGREE_OFFSET degrees) (\<lambda>y.
        Option.bind (fmul (dbl (1376 / 10 ^ 13)) y) (\<lambda>z.
        Option.bind (fadd (dbl (12321 / 10 ^ 12)) z) (\<lambda>v.
        Option.bind (math_sqrt v) (\<lambda>r.
        Option.bind (fadd (- dbl (111 / 10 ^ 6)) r) (\<lambda>w.
        Option.bind (fdiv w (dbl (688 / 10 ^ 13))) (\<lambda>q. Some (py_int q)))))))
      else if ax = 2 then
        Option.bind (float_of_int NOD_MAX_STEPS) (\<lambda>n.
        Option.bind NOD_MAX_DEGREES (\<lambda>nmd.
        Option.bind (fdiv n nmd) (\<lambda>r.
        Option.bind (fadd degrees NOD_DEGREE_OFFSET) (\<lambda>u.
        Option.bind (fmul r u) (\<lambda>q. Some (py_int q))))))
      else None)"

text \<open>From steps to degrees and back.\<close>

definition steps_round_trip :: "nat \<Rightarrow> int \<Rightarrow> int option" where
  "steps_round_trip ax s = Option.bind (steps_to_degrees ax s) (degrees_to_steps ax)"

text \<open>
  The step counts an axis can have: the host clamps a track or nod target to the travel of
  the axis; the stage is not clamped, its position is a 32-bit \<^verbatim>\<open>long\<close> of the controller.
\<close>

definition valid_steps :: "nat \<Rightarrow> int \<Rightarrow> bool" where
  "valid_steps ax s =
     (if ax = 0 then - (2 ^ 31) \<le> s \<and> s < 2 ^ 31
      else if ax = 1 then 0 \<le> s \<and> s \<le> TRACK_MAX_STEPS
      else ax = 2 \<and> 0 \<le> s \<and> s \<le> NOD_MAX_STEPS)"

section \<open>Revolution tracking (control.pyw)\<close>

text \<open>
  Floor division and remainder of floats, as CPython computes them: both start from the
  remainder of the C library, \<^verbatim>\<open>fmod\<close>, which is exact and has the sign of the dividend.
  The remainder is moved to the sign of the divisor by one addition, the quotient
  \<^verbatim>\<open>(vx - mod) / wx\<close> is decremented in that case and then brought to an integer.
  A zero divisor raises \<^verbatim>\<open>ZeroDivisionError\<close>.
\<close>

definition fmod :: "real \<Rightarrow> real \<Rightarrow> real" where
  "fmod vx wx = vx - wx * of_int (py_int (vx / wx))"

definition py_mod :: "real \<Rightarrow> real \<Rightarrow> real option" where
  "py_mod vx wx =
     (if wx = 0 then None
      else let md = fmod vx wx
           in if md \<noteq> 0 \<and> (wx < 0) \<noteq> (md < 0) then fadd md wx else Some md)"

definition py_floordiv :: "real \<Rightarrow> real \<Rightarrow> real option" where
  "py_floordiv vx wx =
     (if wx = 0 then None
      else let md = fmod vx wx
           in Option.bind (fsub vx md) (\<lambda>a.
              Option.bind (fdiv a wx) (\<lambda>dv.
              Option.bind (if md \<noteq> 0 \<and> (wx < 0) \<noteq> (md < 0) then fsub dv 1 else Some dv) (\<lambda>dv.
                if dv \<noteq> 0 then
                  Option.bind (fsub dv (of_int \<lfloor>dv\<rfloor>)) (\<lambda>e.
                    if 1 / 2 < e then fadd (of_int \<lfloor>dv\<rfloor>) 1 else Some (of_int \<lfloor>dv\<rfloor>))
                else Some 0))))"

text \<open>\<^verbatim>\<open>round(x)\<close> of a float is the nearest integer, ties to the even one.\<close>

definition py_round :: "real \<Rightarrow> int" where
  "py_round x = rne x"

text \<open>
  The first component of \<^verbatim>\<open>positions_to_degrees\<close>: the target of the stage motor in
  degrees, from the step count of the stage in \<^verbatim>\<open>motor_data\<close> and the requested azimuth
  \<^verbatim>\<open>p[0]\<close>. (The other two components, the track and nod angles of the linkage, do not
  enter it.)
\<close>

definition stage_motor_degrees :: "int \<Rightarrow> real \<Rightarrow> real option" where
  "stage_motor_degrees steps p0 =
     Option.bind (steps_to_degrees 0 steps) (\<lambda>current_stage_motor_degrees.
     Option.bind (py_floordiv current_stage_motor_degrees 360) (\<lambda>current_revs.
     Option.bind (py_mod current_stage_motor_degrees 360) (\<lambda>md.
     Option.bind (fsub md p0) (\<lambda>diff.
     Option.bind (fdiv diff 360) (\<lambda>q.
     Option.bind (float_of_int (py_round q)) (\<lambda>k.
     Option.bind (fadd current_revs k) (\<lambda>current_revs.
     Option.bind (fmul current_revs 360) (\<lambda>t. fadd p0 t))))))))"

section \<open>Properties of the embedded axis controller\<close>

subsection \<open>Field lemmas\<close>

lemmas lib_defs = setCurrentPosition_def moveTo_def move_def runToPosition_def stop_def run_def
lemmas pin_defs = stageLimitPin_def trackBottomLimitPin_def trackTopLimitPin_def
  nodForwardLimitPin_def nodBackLimitPin_def estopPin_def
lemmas switch_defs = trackTopLimitSwitch_def trackBottomLimitSwitch_def
  nodForwardLimitSwitch_def nodBackLimitSwitch_def trackMicrosteps_def nodMicrosteps_def

lemma upd_motor_fields [simp]:
  "homing (upd_motor m f s) = homing s"
  "needs_homing (upd_motor m f s) = needs_homing s"
  "serial_out (upd_motor m f s) = serial_out s"
  "lastNonzeroTrackMotorSpeed (upd_motor m f s) = lastNonzeroTrackMotorSpeed s"
  "incomingBytes (upd_motor m f s) = incomingBytes s"
  "byteCounter (upd_motor m f s) = byteCounter s"
  by (cases m; simp)+

lemma get_upd_motor [simp]:
  "get_motor m' (upd_motor m f s) = (if m' = m then f (get_motor m s) else get_motor m' s)"
  by (cases m; cases m'; simp)

lemma get_motor_fields [simp]:
  "get_motor m (s\<lparr>homing := h\<rparr>) = get_motor m s"
  "get_motor m (s\<lparr>needs_homing := n\<rparr>) = get_motor m s"
  "get_motor m (s\<lparr>serial_out := out\<rparr>) = get_motor m s"
  "get_motor m (s\<lparr>lastNonzeroTrackMotorSpeed := v\<rparr>) = get_motor m s"
  "get_motor m (s\<lparr>incomingBytes := b\<rparr>) = get_motor m s"
  "get_motor m (s\<lparr>byteCounter := c\<rparr>) = get_motor m s"
  by (cases m; simp)+

lemma println_fields [simp]:
  "homing (println l s) = homing s"
  "needs_homing (println l s) = needs_homing s"
  "serial_out (println l s) = serial_out s @ [l]"
  "lastNonzeroTrackMotorSpeed (println l s) = lastNonzeroTrackMotorSpeed s"
  "get_motor m (println l s) = get_motor m s"
  "stageMotor (println l s) = stageMotor s"
  "trackMotor (println l s) = trackMotor s"
  "nodMotor (println l s) = nodMotor s"
  by (simp_all add: println_def)

lemma zeroings_lib [simp]:
  "zeroings (setCurrentPosition p m) = zeroings m + 1"
  "zeroings (moveTo a m) = zeroings m"
  "zeroings (move r m) = zeroings m"
  "zeroings (runToPosition m) = zeroings m"
  "zeroings (stop b m) = zeroings m"
  "zeroings (run d m) = zeroings m"
  by (simp_all add: lib_defs)

lemma dispatch_keeps:
  assumes "dispatch i s = Some s'"
  shows "needs_homing s' = needs_homing s \<and> zeroings (get_motor m s') = zeroings (get_motor m s)"
  using assms
  by (auto simp: dispatch_def Let_def report_position_def split: if_splits)

lemma read_serial_keeps:
  "read_serial i bs s = Some s' \<Longrightarrow>
     needs_homing s' = needs_homing s \<and> zeroings (get_motor m s') = zeroings (get_motor m s)"
proof (induction bs arbitrary: s)
  case Nil
  then show ?case by simp
next
  case (Cons b bs)
  show ?case
  proof (cases "b = CHR 0x0A")
    case True
    with Cons.prems obtain s2 where
      d: "dispatch i (s\<lparr>incomingBytes := (incomingBytes s)[byteCounter s := b],
                         byteCounter := byteCounter s + 1\<rparr>) = Some s2"
      and r: "read_serial i bs (s2\<lparr>byteCounter := 0,
                incomingBytes := replicate (MAX_DIGITS + 3) (CHR 0x00)\<rparr>) = Some s'"
      by (auto simp: Let_def split: if_splits option.splits)
    from dispatch_keeps[OF d, of m] Cons.IH[OF r] show ?thesis by simp
  next
    case False
    with Cons.prems have
      "read_serial i bs (s\<lparr>incomingBytes := (incomingBytes s)[byteCounter s := b],
                         byteCounter := byteCounter s + 1\<rparr>) = Some s'"
      by (auto simp: Let_def split: if_splits)
    from Cons.IH[OF this] show ?thesis by simp
  qed
qed


lemma nth_upd: "xs[k := v] ! j = (if k = j \<and> j < length xs then v else xs ! j)"
  by (cases "k < length xs") (auto simp: nth_list_update list_update_beyond)

lemma reverse_wound_upd [simp]: "reverse_wound ls (upd_motor m f s) = reverse_wound ls s"
  by (simp add: reverse_wound_def)

lemma check_zeroings:
  "zeroings (get_motor m (checkAndHandleLimitSwitch i ls s)) =
     zeroings (get_motor m s) + (if triggered i (pin ls) \<and> ls_motor ls = m then 1 else 0)"
  by (simp add: checkAndHandleLimitSwitch_def Let_def)

lemma check_stage_zeroings:
  "zeroings (get_motor m (check_stage_limit i s)) =
     zeroings (get_motor m s)
       + (if triggered i stageLimitPin \<and> homing s ! 0 = 1 \<and> m = StageMotor then 1 else 0)"
  by (cases m) (simp_all add: check_stage_limit_def Let_def)

lemma check_homing_other:
  "a \<noteq> axis ls \<Longrightarrow> a \<noteq> 1 \<Longrightarrow> homing (checkAndHandleLimitSwitch i ls s) ! a = homing s ! a"
  "a \<noteq> axis ls \<Longrightarrow> a \<noteq> 1 \<Longrightarrow>
     needs_homing (checkAndHandleLimitSwitch i ls s) ! a = needs_homing s ! a"
  by (simp_all add: checkAndHandleLimitSwitch_def Let_def)

text \<open>A call that clears the flag of its axis found the axis homing and the switch pressed.\<close>

lemma check_clears:
  assumes "needs_homing s ! a" "\<not> needs_homing (checkAndHandleLimitSwitch i ls s) ! a"
  shows "triggered i (pin ls) \<and> a = axis ls \<and> homing s ! a = 1 \<and> direction ls = - 1"
  using assms
  by (auto simp: checkAndHandleLimitSwitch_def Let_def nth_upd split: if_splits)

lemma check_never_sets_homing:
  "homing (checkAndHandleLimitSwitch i ls s) ! a = 1 \<Longrightarrow> homing s ! a = 1"
  by (auto simp: checkAndHandleLimitSwitch_def Let_def nth_upd split: if_splits)

lemma check_never_clears_unflagged:
  "\<not> needs_homing (checkAndHandleLimitSwitch i ls s) ! a \<Longrightarrow> a \<noteq> axis ls \<Longrightarrow> \<not> needs_homing s ! a"
  using check_clears by blast

lemma check_stage_clears:
  assumes "needs_homing s ! a" "\<not> needs_homing (check_stage_limit i s) ! a"
  shows "triggered i stageLimitPin \<and> a = 0 \<and> homing s ! a = 1"
  using assms
  by (auto simp: check_stage_limit_def Let_def nth_upd split: if_splits)

lemma check_stage_never_sets:
  "\<not> needs_homing s ! a \<Longrightarrow> \<not> needs_homing (check_stage_limit i s) ! a"
  by (auto simp: check_stage_limit_def Let_def nth_upd split: if_splits)

lemma run_motors_fields [simp]:
  "homing (run_motors i s) = homing s"
  "needs_homing (run_motors i s) = needs_homing s"
  "serial_out (run_motors i s) = serial_out s"
  "lastNonzeroTrackMotorSpeed (run_motors i s) = lastNonzeroTrackMotorSpeed s"
  "get_motor m (run_motors i s) = run (stepped i m) (get_motor m s)"
  by (cases m; simp add: run_motors_def)+

lemma update_last_speed_fields [simp]:
  "homing (update_last_speed i s) = homing s"
  "needs_homing (update_last_speed i s) = needs_homing s"
  "serial_out (update_last_speed i s) = serial_out s"
  "get_motor m (update_last_speed i s) = get_motor m s"
  by (simp_all add: update_last_speed_def)

lemma switch_fields [simp]:
  "axis trackTopLimitSwitch = 1" "axis trackBottomLimitSwitch = 1"
  "axis nodForwardLimitSwitch = 2" "axis nodBackLimitSwitch = 2"
  "direction trackTopLimitSwitch = 1" "direction trackBottomLimitSwitch = - 1"
  "direction nodForwardLimitSwitch = 1" "direction nodBackLimitSwitch = - 1"
  "pin trackTopLimitSwitch = trackTopLimitPin" "pin trackBottomLimitSwitch = trackBottomLimitPin"
  "pin nodForwardLimitSwitch = nodForwardLimitPin" "pin nodBackLimitSwitch = nodBackLimitPin"
  "ls_motor trackTopLimitSwitch = TrackMotor" "ls_motor trackBottomLimitSwitch = TrackMotor"
  "ls_motor nodForwardLimitSwitch = NodMotor" "ls_motor nodBackLimitSwitch = NodMotor"
  by (simp_all add: switch_defs)


lemma check_stage_never_sets_homing:
  "homing (check_stage_limit i s) ! a = 1 \<Longrightarrow> homing s ! a = 1"
  by (auto simp: check_stage_limit_def Let_def nth_upd split: if_splits)



lemma check_limits_clears:
  assumes "needs_homing s ! a" "\<not> needs_homing (check_limits i s) ! a"
  shows "triggered i (home_pin a) \<and> homing s ! a = 1 \<and> a < 3"
proof -
  let ?s1 = "checkAndHandleLimitSwitch i trackTopLimitSwitch s"
  let ?s2 = "checkAndHandleLimitSwitch i trackBottomLimitSwitch ?s1"
  let ?s3 = "checkAndHandleLimitSwitch i nodForwardLimitSwitch ?s2"
  let ?s4 = "checkAndHandleLimitSwitch i nodBackLimitSwitch ?s3"
  let ?s5 = "check_stage_limit i ?s4"
  have end_eq: "check_limits i s = ?s5"
    by (simp add: check_limits_def)
  have h1: "homing ?s1 ! a = 1 \<Longrightarrow> homing s ! a = 1"
    by (rule check_never_sets_homing)
  have h2: "homing ?s2 ! a = 1 \<Longrightarrow> homing ?s1 ! a = 1"
    by (rule check_never_sets_homing)
  have h3: "homing ?s3 ! a = 1 \<Longrightarrow> homing ?s2 ! a = 1"
    by (rule check_never_sets_homing)
  have h4: "homing ?s4 ! a = 1 \<Longrightarrow> homing ?s3 ! a = 1"
    by (rule check_never_sets_homing)
  have c1: "needs_homing ?s1 ! a"
    using assms(1) check_clears[of s a i trackTopLimitSwitch] by auto
  have c3: "needs_homing ?s2 ! a \<Longrightarrow> needs_homing ?s3 ! a"
    using check_clears[of ?s2 a i nodForwardLimitSwitch] by auto
  have c2: "\<not> needs_homing ?s2 ! a \<Longrightarrow>
              triggered i trackBottomLimitPin \<and> a = 1 \<and> homing ?s1 ! a = 1"
    using c1 check_clears[of ?s1 a i trackBottomLimitSwitch] by auto
  have c4: "needs_homing ?s3 ! a \<Longrightarrow> \<not> needs_homing ?s4 ! a \<Longrightarrow>
              triggered i nodBackLimitPin \<and> a = 2 \<and> homing ?s3 ! a = 1"
    using check_clears[of ?s3 a i nodBackLimitSwitch] by auto
  have c5: "needs_homing ?s4 ! a \<Longrightarrow> \<not> needs_homing ?s5 ! a \<Longrightarrow>
              triggered i stageLimitPin \<and> a = 0 \<and> homing ?s4 ! a = 1"
    using check_stage_clears[of ?s4 a i] by auto
  from assms(2) end_eq have fin: "\<not> needs_homing ?s5 ! a" by simp
  consider (trackbottom) "\<not> needs_homing ?s2 ! a"
    | (nodback) "needs_homing ?s3 ! a" "\<not> needs_homing ?s4 ! a"
    | (stagesw) "needs_homing ?s4 ! a" "\<not> needs_homing ?s5 ! a"
    using fin c3 by blast
  then show ?thesis
  proof cases
    case trackbottom
    from c2[OF trackbottom] h1 show ?thesis by (auto simp: home_pin_def)
  next
    case nodback
    from c4[OF nodback] h1 h2 h3 show ?thesis by (auto simp: home_pin_def)
  next
    case stagesw
    from c5[OF stagesw] h1 h2 h3 h4 show ?thesis by (auto simp: home_pin_def)
  qed
qed

lemma check_limits_zeroings:
  "zeroings (get_motor m (check_limits i s)) =
     zeroings (get_motor m s)
     + (if m = TrackMotor \<and> triggered i trackTopLimitPin then 1 else 0)
     + (if m = TrackMotor \<and> triggered i trackBottomLimitPin then 1 else 0)
     + (if m = NodMotor \<and> triggered i nodForwardLimitPin then 1 else 0)
     + (if m = NodMotor \<and> triggered i nodBackLimitPin then 1 else 0)
     + (if m = StageMotor \<and> triggered i stageLimitPin
           \<and> homing (checkAndHandleLimitSwitch i nodBackLimitSwitch
         (checkAndHandleLimitSwitch i nodForwardLimitSwitch
           (checkAndHandleLimitSwitch i trackBottomLimitSwitch
             (checkAndHandleLimitSwitch i trackTopLimitSwitch s)))) ! 0 = 1 then 1 else 0)"
  unfolding check_limits_def
  by (simp only: check_stage_zeroings check_zeroings switch_fields) auto

text \<open>The carriage switches never touch the homing flag of the stage.\<close>

lemma check_homing_stage:
  "axis ls \<noteq> 0 \<Longrightarrow> homing (checkAndHandleLimitSwitch i ls s) ! 0 = homing s ! 0"
  by (auto simp: checkAndHandleLimitSwitch_def Let_def nth_upd)

lemmas cycle_defs = loop_def quiet_def initial_def pin_defs dispatch_def parse_axis_def
  parse_value_def select_motor_def MAX_DIGITS_def run_motors_def check_limits_def
  checkAndHandleLimitSwitch_def check_stage_limit_def update_last_speed_def triggered_def
  switch_defs lib_defs println_def emergency_stop_def report_position_def reverse_wound_def
  line_def Let_def

lemma emergency_stop_fields [simp]:
  "needs_homing (emergency_stop s) = needs_homing s"
  "homing (emergency_stop s) = homing s"
  "serial_out (emergency_stop s) = serial_out s @ [EmergencyStop]"
  "get_motor m (emergency_stop s) = setCurrentPosition 0 (get_motor m s)"
  by (cases m; simp add: emergency_stop_def println_def)+

lemma stage_homing_after_carriage:
  "homing (checkAndHandleLimitSwitch i nodBackLimitSwitch
         (checkAndHandleLimitSwitch i nodForwardLimitSwitch
           (checkAndHandleLimitSwitch i trackBottomLimitSwitch
             (checkAndHandleLimitSwitch i trackTopLimitSwitch s)))) ! 0 = homing s ! 0"
  by (simp add: check_homing_stage)
lemma switch_more [simp]:
  "backoff trackTopLimitSwitch = 200" "backoff trackBottomLimitSwitch = 200"
  "backoff nodForwardLimitSwitch = 640" "backoff nodBackLimitSwitch = 640"
  "ls_id trackTopLimitSwitch = ''TTLS''" "ls_id trackBottomLimitSwitch = ''TBLS''"
  "ls_id nodForwardLimitSwitch = ''NFLS''" "ls_id nodBackLimitSwitch = ''NBLS''"
  by (simp_all add: switch_defs)

subsection \<open>Emergency stop\<close>

text \<open>
  Claim C1. With the emergency-stop input asserted, a cycle sets the three step positions to
  zero and prints \<^verbatim>\<open>E\<close>; the claim adds that all three "needs homing" flags become true.
  The sketch does not do the last: its assignment is a declaration of a block-local array.
  The run below homes the three axes (cycle 1 the commands, cycle 2 the switches), asserts
  the emergency stop in cycle 3 and releases it in cycle 4: the positions are zero, the
  \<^verbatim>\<open>E\<close> line is printed once, and the flags of all three axes are still clear.
\<close>

theorem estop_leaves_homed_flags_clear:
  "map_option (\<lambda>s. (needs_homing s, currentPos (stageMotor s), currentPos (trackMotor s),
                     currentPos (nodMotor s), serial_out s))
     (cycles [quiet\<lparr>rx := line ''H0'' @ line ''H1'' @ line ''H2''\<rparr>,
              quiet\<lparr>digitalRead := (\<lambda>p k. p = stageLimitPin \<or> p = trackBottomLimitPin
                                            \<or> p = nodBackLimitPin)\<rparr>,
              quiet\<lparr>digitalRead := (\<lambda>p k. p = estopPin)\<rparr>,
              quiet] initial)
   = Some ([False, False, False], 0, 0, 0,
           [HomingComplete 1, HomingComplete 2, LimitHit ''SOLS'' None, HomingComplete 0,
            EmergencyStop])"
  by code_simp

subsection \<open>When a flag is cleared and when a step counter is overwritten\<close>

text \<open>
  Claim C2, as amended. In every cycle that returns: with the emergency stop asserted, no
  "needs homing" flag changes and every step counter is overwritten (with zero); otherwise,
  (a) a flag that was set before the cycle and is clear after it belongs to an axis
  \<open>a < 3\<close> whose homing switch was triggered in the cycle while the axis was homing (its
  \<open>homing\<close> entry was 1 once the commands of the cycle had been read), and (b) the step
  counter of the track (nod) motor is overwritten exactly when one of the two track (nod)
  switches is triggered, whether or not the axis is homing, and that of the stage motor
  exactly when the stage switch is triggered while the stage is homing.
\<close>

theorem flags_and_zeroing_per_cycle:
  assumes "loop i s = Some s'"
  shows "(digitalRead i estopPin 0 \<longrightarrow>
            needs_homing s' = needs_homing s \<and> (\<forall>m. zeroed m s s'))
       \<and> (\<not> digitalRead i estopPin 0 \<longrightarrow>
            (\<exists>s1. read_serial i (rx i) s = Some s1 \<and>
                (\<forall>a. needs_homing s ! a \<and> \<not> needs_homing s' ! a \<longrightarrow>
                       a < 3 \<and> triggered i (home_pin a) \<and> homing s1 ! a = 1) \<and>
                (zeroed TrackMotor s s' \<longleftrightarrow>
                   triggered i trackTopLimitPin \<or> triggered i trackBottomLimitPin) \<and>
                (zeroed NodMotor s s' \<longleftrightarrow>
                   triggered i nodForwardLimitPin \<or> triggered i nodBackLimitPin) \<and>
                (zeroed StageMotor s s' \<longleftrightarrow>
                   triggered i stageLimitPin \<and> homing s1 ! 0 = 1)))"
proof (cases "digitalRead i estopPin 0")
  case True
  with assms have "s' = emergency_stop s" by (simp add: loop_def)
  with True show ?thesis by (simp add: zeroed_def)
next
  case False
  with assms obtain s1 where r: "read_serial i (rx i) s = Some s1"
    and s': "s' = update_last_speed i (check_limits i (run_motors i s1))"
    by (auto simp: loop_def split: option.splits)
  have keep: "needs_homing s1 = needs_homing s"
    "\<And>m. zeroings (get_motor m s1) = zeroings (get_motor m s)"
    using read_serial_keeps[OF r] by simp_all
  have flags: "a < 3 \<and> triggered i (home_pin a) \<and> homing s1 ! a = 1"
    if "needs_homing s ! a" "\<not> needs_homing s' ! a" for a
    using check_limits_clears[of "run_motors i s1" a i] that keep(1) s' by simp
  have z: "zeroings (get_motor m s') = zeroings (get_motor m (check_limits i (run_motors i s1)))" for m
    by (simp add: s')
  have track: "zeroed TrackMotor s s' \<longleftrightarrow>
                 triggered i trackTopLimitPin \<or> triggered i trackBottomLimitPin"
    unfolding zeroed_def z check_limits_zeroings using keep(2)[of TrackMotor] by auto
  have nod: "zeroed NodMotor s s' \<longleftrightarrow>
                 triggered i nodForwardLimitPin \<or> triggered i nodBackLimitPin"
    unfolding zeroed_def z check_limits_zeroings using keep(2)[of NodMotor] by auto
  have stage: "zeroed StageMotor s s' \<longleftrightarrow> triggered i stageLimitPin \<and> homing s1 ! 0 = 1"
    unfolding zeroed_def z check_limits_zeroings stage_homing_after_carriage
    using keep(2)[of StageMotor] by auto
  from False r flags track nod stage show ?thesis by auto
qed

theorem flags_and_zeroing_per_cycle_witness:
  "triggered (quiet\<lparr>digitalRead := (\<lambda>p k. p = nodBackLimitPin)\<rparr>) (home_pin 2)
   \<and> zeroed NodMotor (initial\<lparr>homing := [0, 0, 1]\<rparr>)
        (the (loop (quiet\<lparr>digitalRead := (\<lambda>p k. p = nodBackLimitPin)\<rparr>)
                   (initial\<lparr>homing := [0, 0, 1]\<rparr>)))"
proof -
  let ?i = "quiet\<lparr>digitalRead := (\<lambda>p k. p = nodBackLimitPin)\<rparr>"
  let ?s = "initial\<lparr>homing := [0, 0, 1]\<rparr>"
  have l: "loop ?i ?s = Some (the (loop ?i ?s))"
    by (simp add: loop_def quiet_def pin_defs)
  have n: "needs_homing ?s ! 2" by (simp add: initial_def)
  have c: "\<not> needs_homing (the (loop ?i ?s)) ! 2" by (simp add: cycle_defs)
  have e: "\<not> digitalRead ?i estopPin 0" by (simp add: quiet_def pin_defs)
  have t: "triggered ?i nodBackLimitPin" by (simp add: triggered_def)
  from flags_and_zeroing_per_cycle[OF l, THEN conjunct2, THEN mp, OF e] obtain s1 :: ctrl where
    a: "\<forall>a. needs_homing ?s ! a \<and> \<not> needs_homing (the (loop ?i ?s)) ! a \<longrightarrow>
              a < 3 \<and> triggered ?i (home_pin a) \<and> homing s1 ! a = 1"
    and b: "zeroed NodMotor ?s (the (loop ?i ?s)) \<longleftrightarrow>
              triggered ?i nodForwardLimitPin \<or> triggered ?i nodBackLimitPin"
    by blast
  from a n c have "triggered ?i (home_pin 2)" by blast
  moreover from b t have "zeroed NodMotor ?s (the (loop ?i ?s))" by blast
  ultimately show ?thesis by blast
qed

text \<open>
  The claim as stated fails: the track, not homing and with no emergency stop, runs into its
  top switch at step 5000; the counter is overwritten and the motor ends 200 steps below
  the new zero.
\<close>

theorem limit_hit_zeroes_without_homing:
  "map_option (\<lambda>s. (zeroed TrackMotor initial s, homing s, serial_out s, currentPos (trackMotor s)))
     (cycles [quiet\<lparr>rx := line ''F1+5000''\<rparr>,
              quiet\<lparr>digitalRead := (\<lambda>p k. p = trackTopLimitPin)\<rparr>] initial)
   = Some (True, [0, 0, 0], [LimitHit ''TTLS'' (Some 5000)], - 200)
   \<and> \<not> digitalRead (quiet\<lparr>digitalRead := (\<lambda>p k. p = trackTopLimitPin)\<rparr>) estopPin 0"
  by code_simp

subsection \<open>Completion of homing\<close>

text \<open>
  Claim C3, as amended. For the track and the nod axis: when the axis is homing and its
  negative-direction switch is triggered, and the reverse-wind test does not fire (for the
  track: the last nonzero track speed is not positive), the call backs the motor off the
  switch (the shaft makes the switch's back-off distance in steps, in the positive
  direction, and the step counter ends at that distance from its new zero), clears \<open>homing\<close>
  and \<open>needs_homing\<close> of the axis and prints exactly one line, \<^verbatim>\<open>H <axis>\<close>. For the
  stage: when it is homing and its switch is triggered, the check backs the stage off the
  switch (the shaft makes 100 steps in the positive direction), prints \<^verbatim>\<open>L SOLS\<close> and
  \<^verbatim>\<open>H 0\<close>, clears both flags and leaves the step counter of the stage at zero.
\<close>

theorem homing_completes_at_negative_switch:
  "(ls \<in> {trackBottomLimitSwitch, nodBackLimitSwitch} \<and> triggered i (pin ls)
      \<and> homing s ! axis ls = 1 \<and> \<not> reverse_wound ls s
      \<and> length (homing s) = 3 \<and> length (needs_homing s) = 3 \<longrightarrow>
      serial_out (checkAndHandleLimitSwitch i ls s) = serial_out s @ [HomingComplete (axis ls)]
      \<and> homing (checkAndHandleLimitSwitch i ls s) ! axis ls = 0
      \<and> \<not> needs_homing (checkAndHandleLimitSwitch i ls s) ! axis ls
      \<and> currentPos (get_motor (ls_motor ls) (checkAndHandleLimitSwitch i ls s)) = backoff ls
      \<and> targetPos (get_motor (ls_motor ls) (checkAndHandleLimitSwitch i ls s)) = backoff ls
      \<and> shaft (get_motor (ls_motor ls) (checkAndHandleLimitSwitch i ls s))
          = shaft (get_motor (ls_motor ls) s) + backoff ls
      \<and> 0 < backoff ls)
   \<and> (triggered i stageLimitPin \<and> homing s ! 0 = 1
      \<and> length (homing s) = 3 \<and> length (needs_homing s) = 3 \<longrightarrow>
      serial_out (check_stage_limit i s)
        = serial_out s @ [LimitHit ''SOLS'' None, HomingComplete 0]
      \<and> homing (check_stage_limit i s) ! 0 = 0
      \<and> \<not> needs_homing (check_stage_limit i s) ! 0
      \<and> currentPos (stageMotor (check_stage_limit i s)) = 0
      \<and> targetPos (stageMotor (check_stage_limit i s)) = 0
      \<and> shaft (stageMotor (check_stage_limit i s)) = shaft (stageMotor s) + 100)"
proof (intro conjI impI)
  assume a: "ls \<in> {trackBottomLimitSwitch, nodBackLimitSwitch} \<and> triggered i (pin ls)
      \<and> homing s ! axis ls = 1 \<and> \<not> reverse_wound ls s
      \<and> length (homing s) = 3 \<and> length (needs_homing s) = 3"
  then have d: "direction ls = - 1" and ax: "axis ls < 3" by auto
  let ?s' = "checkAndHandleLimitSwitch i ls s"
  from a d ax show "serial_out ?s' = serial_out s @ [HomingComplete (axis ls)]"
    by (simp add: checkAndHandleLimitSwitch_def Let_def)
  from a d ax show "homing ?s' ! axis ls = 0"
    by (simp add: checkAndHandleLimitSwitch_def Let_def)
  from a d ax show "\<not> needs_homing ?s' ! axis ls"
    by (simp add: checkAndHandleLimitSwitch_def Let_def)
  from a d ax show "currentPos (get_motor (ls_motor ls) ?s') = backoff ls"
    by (simp add: checkAndHandleLimitSwitch_def Let_def lib_defs)
  from a d ax show "targetPos (get_motor (ls_motor ls) ?s') = backoff ls"
    by (simp add: checkAndHandleLimitSwitch_def Let_def lib_defs)
  from a d ax show "shaft (get_motor (ls_motor ls) ?s')
      = shaft (get_motor (ls_motor ls) s) + backoff ls"
    by (simp add: checkAndHandleLimitSwitch_def Let_def lib_defs)
  from a show "0 < backoff ls" by auto
next
  assume a: "triggered i stageLimitPin \<and> homing s ! 0 = 1
      \<and> length (homing s) = 3 \<and> length (needs_homing s) = 3"
  then show "serial_out (check_stage_limit i s)
        = serial_out s @ [LimitHit ''SOLS'' None, HomingComplete 0]"
    by (simp add: check_stage_limit_def Let_def)
  from a show "homing (check_stage_limit i s) ! 0 = 0"
    by (simp add: check_stage_limit_def Let_def)
  from a show "\<not> needs_homing (check_stage_limit i s) ! 0"
    by (simp add: check_stage_limit_def Let_def)
  from a show "currentPos (stageMotor (check_stage_limit i s)) = 0"
    by (simp add: check_stage_limit_def Let_def lib_defs)
  from a show "targetPos (stageMotor (check_stage_limit i s)) = 0"
    by (simp add: check_stage_limit_def Let_def lib_defs)
  from a show "shaft (stageMotor (check_stage_limit i s)) = shaft (stageMotor s) + 100"
    by (simp add: check_stage_limit_def Let_def lib_defs println_def)
qed

theorem homing_completes_at_negative_switch_witness:
  "serial_out (checkAndHandleLimitSwitch (quiet\<lparr>digitalRead := (\<lambda>p k. p = trackBottomLimitPin)\<rparr>)
                 trackBottomLimitSwitch (initial\<lparr>homing := [0, 1, 0]\<rparr>))
     = [HomingComplete 1]
   \<and> shaft (trackMotor (checkAndHandleLimitSwitch
                (quiet\<lparr>digitalRead := (\<lambda>p k. p = trackBottomLimitPin)\<rparr>)
                 trackBottomLimitSwitch (initial\<lparr>homing := [0, 1, 0]\<rparr>))) = 200
   \<and> serial_out (check_stage_limit (quiet\<lparr>digitalRead := (\<lambda>p k. p = stageLimitPin)\<rparr>)
                   (initial\<lparr>homing := [1, 0, 0]\<rparr>))
     = [LimitHit ''SOLS'' None, HomingComplete 0]
   \<and> shaft (stageMotor (check_stage_limit (quiet\<lparr>digitalRead := (\<lambda>p k. p = stageLimitPin)\<rparr>)
                   (initial\<lparr>homing := [1, 0, 0]\<rparr>))) = 100"
  using homing_completes_at_negative_switch [of trackBottomLimitSwitch "quiet\<lparr>digitalRead := (\<lambda>p k. p = trackBottomLimitPin)\<rparr>"
               "initial\<lparr>homing := [0, 1, 0]\<rparr>"]
        homing_completes_at_negative_switch [of trackBottomLimitSwitch "quiet\<lparr>digitalRead := (\<lambda>p k. p = stageLimitPin)\<rparr>"
               "initial\<lparr>homing := [1, 0, 0]\<rparr>"]
  by (simp add: triggered_def reverse_wound_def initial_def)

text \<open>
  Without the proviso the claim fails: the track is homing and its bottom switch is
  triggered, but the last nonzero track speed is positive; the sketch prints \<^verbatim>\<open>W TBLS\<close>,
  no \<^verbatim>\<open>H 1\<close>, and the track still needs homing.
\<close>

theorem homing_blocked_by_reverse_wind:
  "map_option (\<lambda>s. (serial_out s, needs_homing s, homing s))
     (cycles [quiet\<lparr>rx := line ''J1+5000'', trackSpeed := 100\<rparr>,
              quiet\<lparr>rx := line ''H1'', trackSpeed := 100,
                    digitalRead := (\<lambda>p k. p = trackBottomLimitPin)\<rparr>] initial)
   = Some ([ReverseWind ''TBLS''], [True, True, True], [0, 0, 0])"
  by code_simp

subsection \<open>Reverse-wind detection\<close>



lemma check_needs_homing:
  "needs_homing (checkAndHandleLimitSwitch i ls s) =
     (if triggered i (pin ls) then
        if reverse_wound ls s then (needs_homing s)[1 := True]
        else if homing s ! axis ls = 1 \<and> direction ls = - 1 then (needs_homing s)[axis ls := False]
        else (needs_homing s)[axis ls := True]
      else needs_homing s)"
  by (simp add: checkAndHandleLimitSwitch_def Let_def)

lemma check_homing:
  "homing (checkAndHandleLimitSwitch i ls s) =
     (if triggered i (pin ls) then
        if reverse_wound ls s then (homing s)[1 := 0]
        else if homing s ! axis ls = 1 \<and> direction ls = - 1 then (homing s)[axis ls := 0]
        else homing s
      else homing s)"
  by (simp add: checkAndHandleLimitSwitch_def Let_def)

lemma check_speed [simp]:
  "lastNonzeroTrackMotorSpeed (checkAndHandleLimitSwitch i ls s) = lastNonzeroTrackMotorSpeed s"
  by (simp add: checkAndHandleLimitSwitch_def Let_def)

lemma check_stage_speed [simp]:
  "lastNonzeroTrackMotorSpeed (check_stage_limit i s) = lastNonzeroTrackMotorSpeed s"
  by (simp add: check_stage_limit_def Let_def)






lemma check_limits_speed [simp]:
  "lastNonzeroTrackMotorSpeed (check_limits i s) = lastNonzeroTrackMotorSpeed s"
  by (simp add: check_limits_def)





lemma check_lengths [simp]:
  "length (homing (checkAndHandleLimitSwitch i ls s)) = length (homing s)"
  "length (needs_homing (checkAndHandleLimitSwitch i ls s)) = length (needs_homing s)"
  by (simp_all add: check_homing check_needs_homing)

lemma check_stage_lengths [simp]:
  "length (homing (check_stage_limit i s)) = length (homing s)"
  "length (needs_homing (check_stage_limit i s)) = length (needs_homing s)"
  by (simp_all add: check_stage_limit_def Let_def)









subsection \<open>The Home and Stop commands\<close>

text \<open>
  Claim C5. A Home command marks its axis as homing and issues a jog of a million steps;
  the claim adds that the \<open>\<plusminus>1\<close> payload selects the side. The sketch never looks at the
  payload: \<^verbatim>\<open>H1+1\<close> and \<^verbatim>\<open>H1-1\<close> both jog the track by \<open>-1000000\<close>.
\<close>

theorem home_ignores_payload:
  "map_option (\<lambda>s. (homing s, currentPos (trackMotor s), targetPos (trackMotor s)))
     (read_serial quiet (line ''H1+1'') initial) = Some ([0, 1, 0], 0, - 1000000)
   \<and> map_option (\<lambda>s. (homing s, currentPos (trackMotor s), targetPos (trackMotor s)))
     (read_serial quiet (line ''H1-1'') initial) = Some ([0, 1, 0], 0, - 1000000)"
  by code_simp

text \<open>
  Claim C9. A Stop command for an existing axis stops the motor of that axis, clears its
  \<open>homing\<close> entry and, running into the next case, prints a position report.
\<close>

theorem stop_falls_through_to_position_report:
  assumes "incomingBytes s ! 0 = CHR ''E''"
    and "select_motor (parse_axis (incomingBytes s)) = Some m"
  shows "\<exists>s'. dispatch i s = Some s'
           \<and> get_motor m s' = stop (braking i m) (get_motor m s)
           \<and> homing s' = (homing s)[nat (parse_axis (incomingBytes s)) := 0]
           \<and> serial_out s' = serial_out s @
                [PositionReport (currentPos (stageMotor s)) (currentPos (trackMotor s))
                   (currentPos (nodMotor s))]"
  using assms
  by (cases m) (simp_all add: dispatch_def Let_def report_position_def lib_defs)

theorem stop_falls_through_to_position_report_witness:
  "map_option (\<lambda>s. (homing s, targetPos (trackMotor s), serial_out s))
     (dispatch (quiet\<lparr>braking := (\<lambda>m. 7)\<rparr>)
        (initial\<lparr>incomingBytes := line ''E1'' @ replicate 10 (CHR 0x00), byteCounter := 3,
                 homing := [0, 1, 0]\<rparr>))
   = Some ([0, 0, 0], 7, [PositionReport 0 0 0])"
  using stop_falls_through_to_position_report
          [of "initial\<lparr>incomingBytes := line ''E1'' @ replicate 10 (CHR 0x00), byteCounter := 3,
                       homing := [0, 1, 0]\<rparr>" TrackMotor "quiet\<lparr>braking := (\<lambda>m. 7)\<rparr>"]
  by (auto simp: line_def parse_axis_def select_motor_def initial_def quiet_def lib_defs)

section \<open>Properties of the host motion sequencer\<close>

subsection \<open>A sweep that starts while no motor is known to run\<close>

lemma length_row_major: "length (row_major rows cols) = length rows * length cols"
  by (induction rows) (simp_all add: row_major_def)

lemma waypoint_at_rest:
  assumes "\<not> list_ex truthy (is_running st)"
  shows "move_capture_wait t p h st = Some (st\<lparr>events := events st @ waypoint_log (t, p, h)\<rparr>)"
  using assms
  by (simp add: move_capture_wait_def wait_for_all_motors_stopped_def emit_def waypoint_log_def)

lemma sweep_cols_at_rest:
  assumes "\<not> list_ex truthy (is_running st)" "\<not> cancel_sequence_flag st"
  shows "sweep_cols r cols st =
           Some (False, st\<lparr>events := events st
                   @ concat (map waypoint_log (map (\<lambda>c. (c, fst r, snd r)) cols))\<rparr>)"
  using assms
proof (induction cols arbitrary: st)
  case Nil
  then show ?case by simp
next
  case (Cons c cs)
  let ?st1 = "st\<lparr>events := events st @ waypoint_log (c, fst r, snd r)\<rparr>"
  have "sweep_cols r (c # cs) st = sweep_cols r cs ?st1"
    using Cons.prems by (simp add: waypoint_at_rest)
  moreover have "\<not> list_ex truthy (is_running ?st1)" "\<not> cancel_sequence_flag ?st1"
    using Cons.prems by simp_all
  ultimately show ?case using Cons.IH[of ?st1] by simp
qed

lemma sweep_rows_at_rest:
  assumes "\<not> list_ex truthy (is_running st)" "\<not> cancel_sequence_flag st"
  shows "sweep_rows rows cols st =
           Some (False, st\<lparr>events := events st @ concat (map waypoint_log (row_major rows cols))\<rparr>)"
  using assms
proof (induction rows arbitrary: st)
  case Nil
  then show ?case by (simp add: row_major_def)
next
  case (Cons r rs)
  let ?st1 = "st\<lparr>events := events st
                 @ concat (map waypoint_log (map (\<lambda>c. (c, fst r, snd r)) cols))\<rparr>"
  have "sweep_rows (r # rs) cols st = sweep_rows rs cols ?st1"
    using Cons.prems by (simp add: sweep_cols_at_rest)
  moreover have "\<not> list_ex truthy (is_running ?st1)" "\<not> cancel_sequence_flag ?st1"
    using Cons.prems by simp_all
  ultimately show ?case using Cons.IH[of ?st1] by (simp add: row_major_def)
qed

text \<open>
  When the last poll delivered before the START click showed no motor running and the cancel
  flag is clear, the sweep runs through in one piece: every waypoint is moved to, in
  row-major order, the capture of each follows its Move commands with no event delivered in
  between, and whatever is pending (position reports, a click on the cancel button) is
  still pending when the sweep is over.
\<close>

lemma sweep_from_rest:
  assumes "\<not> list_ex truthy (is_running st)" "\<not> cancel_sequence_flag st" "\<not> needs_homing_flag st"
  shows "start_sequence rows cols st =
           Some (st\<lparr>sequence_active_flag := False,
                    events := events st @ [Terminal ''Starting spin set capture sequence...'']
                      @ concat (map waypoint_log (row_major rows cols))
                      @ [Terminal ''Spin set capture sequence complete'']\<rparr>)"
proof -
  let ?st0 = "output_to_terminal ''Starting spin set capture sequence...''
                (st\<lparr>sequence_active_flag := True\<rparr>)"
  have "\<not> list_ex truthy (is_running ?st0)" "\<not> cancel_sequence_flag ?st0"
    using assms by (simp_all add: output_to_terminal_def emit_def)
  from sweep_rows_at_rest[OF this, of rows cols] assms(3) show ?thesis
    by (simp add: start_sequence_def capture_spin_set_def end_sequence_def
        output_to_terminal_def emit_def)
qed

text \<open>
  When the cancel flag is still set, the sweep tests it before the first waypoint, clears it
  and returns: nothing is moved to, and the sequence is not ended.
\<close>

lemma sweep_with_stale_flag:
  assumes "cancel_sequence_flag st" "\<not> needs_homing_flag st" "rows \<noteq> []" "cols \<noteq> []"
  shows "start_sequence rows cols st =
           Some (st\<lparr>sequence_active_flag := True, cancel_sequence_flag := False,
                    events := events st @ [Terminal ''Starting spin set capture sequence...'']\<rparr>)"
proof -
  from assms(3,4) obtain r rs c cs where "rows = r # rs" "cols = c # cs"
    by (cases rows; cases cols) auto
  with assms(1,2) show ?thesis
    by (simp add: start_sequence_def capture_spin_set_def output_to_terminal_def emit_def)
qed

lemma grid_2x3:
  "grid_rows (\<lambda>k. int k * 45) 2 500 = [(0, 500), (45, 500)]"
  "linspace (\<lambda>k. int k * 120) 3 = [0, 120, 240]"
  by (simp_all add: grid_rows_def linspace_def upt_rec numeral_2_eq_2 numeral_3_eq_3)

subsection \<open>The grid sweep\<close>

text \<open>
  Claim C8. A sweep of 2 rows and 3 columns should move to its six waypoints in row-major
  order and capture after each has settled, and a cancellation requested after a waypoint
  should stop all axes and keep the sweep from any further waypoint. The program misses
  this in two ways, shown by two runs from the state after \<^verbatim>\<open>__init__\<close>.

  First run. A poll reports the three motors at rest, START is clicked, and while the sweep
  runs a report that the motors are running, a click on the cancel button and a report that
  they have stopped are pending. \<^verbatim>\<open>wait_for_all_motors_stopped\<close> looks at the entries of
  the last poll, finds no motor running and returns at once, six times: each capture
  follows its Move commands directly, no Stop command is sent, all six waypoints are moved
  to, and the three events are still pending when the sweep has ended.

  Second run. A poll reports the stage running, and a sweep of one waypoint is started and
  cancelled during its wait, which this time does wait. The flag set by the cancellation is
  tested only before a waypoint, and none follows: it stays set. The next sweep, 2 rows and
  3 columns, finds it, clears it and returns before its first waypoint, with the sequence
  still marked as active.
\<close>

theorem grid_sweep_neither_waits_nor_recovers:
  "map_option (\<lambda>st. (events st, pending st, sequence_active_flag st))
     (start_sequence (grid_rows (\<lambda>k. int k * 45) 2 500) (linspace (\<lambda>k. int k * 120) 3)
        (arrive [SerialTimer [(1, 1, 1)], CancelClicked, SerialTimer [(0, 0, 0)]]
           (deliver [SerialTimer [(0, 0, 0)]] startup)))
   = Some ([Sent ''P'', Terminal ''Starting spin set capture sequence...'',
            MoveToPosition 0 0 500, CaptureImage, MoveToPosition 120 0 500, CaptureImage,
            MoveToPosition 240 0 500, CaptureImage, MoveToPosition 0 45 500, CaptureImage,
            MoveToPosition 120 45 500, CaptureImage, MoveToPosition 240 45 500, CaptureImage,
            Terminal ''Spin set capture sequence complete''],
           [SerialTimer [(1, 1, 1)], CancelClicked, SerialTimer [(0, 0, 0)]], False)
   \<and> map_option (\<lambda>st. (events st, cancel_sequence_flag st, sequence_active_flag st))
       (start_sequence [(0, 500 :: int)] [0]
          (arrive [CancelClicked, SerialTimer [(0, 0, 0)]]
             (deliver [SerialTimer [(1, 0, 0)]] startup)))
     = Some ([Sent ''P'', Terminal ''Starting spin set capture sequence...'',
              MoveToPosition 0 0 500, Terminal ''Spin set capture cancelled'',
              UserTxtInput ''abort'', Sent ''E0'', Sent ''E1'', Sent ''E2'', Sent ''P'',
              CaptureImage, Terminal ''Spin set capture sequence complete''],
             True, False)
   \<and> map_option (\<lambda>st. (drop 11 (events st), moves (drop 11 (events st)),
                        cancel_sequence_flag st, sequence_active_flag st))
       (Option.bind
          (start_sequence [(0, 500 :: int)] [0]
             (arrive [CancelClicked, SerialTimer [(0, 0, 0)]]
                (deliver [SerialTimer [(1, 0, 0)]] startup)))
          (start_sequence (grid_rows (\<lambda>k. int k * 45) 2 500) (linspace (\<lambda>k. int k * 120) 3)))
     = Some ([Terminal ''Starting spin set capture sequence...''], [], False, True)"
  by code_simp

section \<open>Properties of the rate conversion\<close>

lemmas float_defs = pow2_def dexp_def rne_def dbl_def fl_def float_of_int_def fdiv_def fmul_def
  fadd_def fsub_def int_truediv_def py_int_def

text \<open>
  Evaluation goes from the inside out: the first argument of a \<open>bind\<close> is brought to a
  value before the function is applied to it.
\<close>

lemma bind_weak_cong: "x = y \<Longrightarrow> Option.bind x f = Option.bind y f"
  by simp

lemmas rate_defs = rate_round_trip_def percentage_to_rate_def rate_to_percentage_def

lemma rate_round_trip_1_10:
  "\<forall>p \<in> set [1, 2, 3, 4, 5, 6, 7, 8, 9, 10]. rate_round_trip p = Some p"
  apply (simp only: list.set ball_simps)
  apply (simp add: rate_defs float_defs cong: bind_weak_cong)
  done

lemma rate_round_trip_11_20:
  "\<forall>p \<in> set [11, 12, 13, 14, 15, 16, 17, 18, 19, 20]. rate_round_trip p = Some p"
  apply (simp only: list.set ball_simps)
  apply (simp add: rate_defs float_defs cong: bind_weak_cong)
  done

lemma rate_round_trip_21_30:
  "\<forall>p \<in> set [21, 22, 23, 24, 25, 26, 27, 28, 29, 30]. rate_round_trip p = Some p"
  apply (simp only: list.set ball_simps)
  apply (simp add: rate_defs float_defs cong: bind_weak_cong)
  done

lemma rate_round_trip_31_40:
  "\<forall>p \<in> set [31, 32, 33, 34, 35, 36, 37, 38, 39, 40]. rate_round_trip p = Some p"
  apply (simp only: list.set ball_simps)
  apply (simp add: rate_defs float_defs cong: bind_weak_cong)
  done

lemma rate_round_trip_41_50:
  "\<forall>p \<in> set [41, 42, 43, 44, 45, 46, 47, 48, 49, 50]. rate_round_trip p = Some p"
  apply (simp only: list.set ball_simps)
  apply (simp add: rate_defs float_defs cong: bind_weak_cong)
  done

lemma rate_round_trip_51_60:
  "\<forall>p \<in> set [51, 52, 53, 54, 55, 56, 57, 58, 59, 60]. rate_round_trip p = Some p"
  apply (simp only: list.set ball_simps)
  apply (simp add: rate_defs float_defs cong: bind_weak_cong)
  done

lemma rate_round_trip_61_70:
  "\<forall>p \<in> set [61, 62, 63, 64, 65, 66, 67, 68, 69, 70]. rate_round_trip p = Some p"
  apply (simp only: list.set ball_simps)
  apply (simp add: rate_defs float_defs cong: bind_weak_cong)
  done

lemma rate_round_trip_71_80:
  "\<forall>p \<in> set [71, 72, 73, 74, 75, 76, 77, 78, 79, 80]. rate_round_trip p = Some p"
  apply (simp only: list.set ball_simps)
  apply (simp add: rate_defs float_defs cong: bind_weak_cong)
  done

lemma rate_round_trip_81_90:
  "\<forall>p \<in> set [81, 82, 83, 84, 85, 86, 87, 88, 89, 90]. rate_round_trip p = Some p"
  apply (simp only: list.set ball_simps)
  apply (simp add: rate_defs float_defs cong: bind_weak_cong)
  done

lemma rate_round_trip_91_100:
  "\<forall>p \<in> set [91, 92, 93, 94, 95, 96, 97, 98, 99, 100]. rate_round_trip p = Some p"
  apply (simp only: list.set ball_simps)
  apply (simp add: rate_defs float_defs cong: bind_weak_cong)
  done

lemma upto_1_100:
  "[1..100] = [1, 2, 3, 4, 5, 6, 7, 8, 9, 10] @ [11, 12, 13, 14, 15, 16, 17, 18, 19, 20] @ [21, 22, 23, 24, 25, 26, 27, 28, 29, 30] @ [31, 32, 33, 34, 35, 36, 37, 38, 39, 40] @ [41, 42, 43, 44, 45, 46, 47, 48, 49, 50]
     @ [51, 52, 53, 54, 55, 56, 57, 58, 59, 60] @ [61, 62, 63, 64, 65, 66, 67, 68, 69, 70] @ [71, 72, 73, 74, 75, 76, 77, 78, 79, 80] @ [81, 82, 83, 84, 85, 86, 87, 88, 89, 90] @ [91, 92, 93, 94, 95, 96, 97, 98, 99, 100 :: int]"
  by (simp add: upto_rec1)

text \<open>
  Claim C10. For every integer percentage \<open>p\<close> from 1 to 100, converting \<open>p\<close> to a rate and
  the rate back to a percentage gives \<open>p\<close>, in the double arithmetic of Python: each of the
  hundred values is computed.
\<close>

theorem rate_percentage_round_trip: "\<forall>p \<in> {1..100}. rate_round_trip p = Some p"
proof -
  have "\<forall>p \<in> set [1..100]. rate_round_trip p = Some p"
    unfolding upto_1_100 set_append ball_Un
    by (intro conjI rate_round_trip_1_10 rate_round_trip_11_20 rate_round_trip_21_30 rate_round_trip_31_40 rate_round_trip_41_50 rate_round_trip_51_60 rate_round_trip_61_70 rate_round_trip_71_80 rate_round_trip_81_90 rate_round_trip_91_100)
  then show ?thesis by simp
qed

theorem rate_percentage_round_trip_witness:
  "rate_round_trip 40 = Some 40 \<and> percentage_to_rate 40 = Some 1600"
  using rate_percentage_round_trip
  by (simp add: percentage_to_rate_def float_defs cong: bind_weak_cong)

section \<open>Properties of the double arithmetic\<close>

text \<open>
  What the error analyses below need of the model of the doubles: the exponent found by the
  search is the binade of the argument, rounding moves a value by at most half a unit in the
  last place, integers below \<open>2\<^sup>5\<^sup>3\<close> are not moved at all, and the square root computed
  over the integers is the rounded real square root.
\<close>

subsection \<open>Powers of two\<close>

lemma pow2_powr: "pow2 e = 2 powr (of_int e)"
proof (cases "0 \<le> e")
  case True
  then have "pow2 e = 2 ^ nat e" by (simp add: pow2_def)
  also have "\<dots> = 2 powr (real (nat e))" by (simp add: powr_realpow)
  finally show ?thesis using True by simp
next
  case False
  then have "pow2 e = 1 / 2 ^ nat (- e)" by (simp add: pow2_def)
  also have "\<dots> = 1 / 2 powr (real (nat (- e)))" by (simp add: powr_realpow)
  also have "\<dots> = 2 powr (- real (nat (- e)))" by (simp add: powr_minus_divide)
  finally show ?thesis using False by simp
qed

lemma pow2_pos [simp]: "0 < pow2 e"
  by (simp add: pow2_powr)

lemma pow2_nonzero [simp]: "pow2 e \<noteq> 0"
  by (simp add: pow2_powr)

lemma pow2_nonneg [simp]: "0 \<le> pow2 e"
  by (simp add: pow2_powr)

lemma pow2_add: "pow2 (a + b) = pow2 a * pow2 b"
  by (simp add: pow2_powr powr_add)

lemma pow2_diff: "pow2 (a - b) = pow2 a / pow2 b"
  by (simp add: pow2_powr powr_diff)

lemma pow2_mono: "a \<le> b \<Longrightarrow> pow2 a \<le> pow2 b"
  by (simp add: pow2_powr)

lemma pow2_less_iff: "pow2 a < pow2 b \<longleftrightarrow> a < b"
  by (simp add: pow2_powr)

lemma pow2_le_iff: "pow2 a \<le> pow2 b \<longleftrightarrow> a \<le> b"
  by (simp add: pow2_powr)

lemma pow2_numeral: "pow2 (numeral k) = 2 ^ numeral k"
  by (simp add: pow2_def)

lemma pow2_neg_numeral: "pow2 (- numeral k) = 1 / 2 ^ numeral k"
  by (simp add: pow2_def)

lemma pow2_0 [simp]: "pow2 0 = 1"
  by (simp add: pow2_def)

subsection \<open>The search for a binade\<close>

lemma bit_search:
  fixes acc :: "'a :: semiring_1"
  assumes "P acc" "\<not> P (acc + 2 ^ k)"
  shows "P (foldl (\<lambda>acc b. if P (acc + b) then acc + b else acc) acc
              (map (\<lambda>i. 2 ^ i) (rev [0..<k])))
       \<and> \<not> P (foldl (\<lambda>acc b. if P (acc + b) then acc + b else acc) acc
                (map (\<lambda>i. 2 ^ i) (rev [0..<k])) + 1)"
  using assms
proof (induction k arbitrary: acc)
  case 0
  then show ?case by simp
next
  case (Suc k)
  show ?case
  proof (cases "P (acc + 2 ^ k)")
    case True
    from Suc.prems(2) have "\<not> P (acc + 2 ^ k + 2 ^ k)" by (simp add: add.assoc mult_2)
    from Suc.IH[OF True this] True show ?thesis by simp
  next
    case False
    from Suc.IH[OF Suc.prems(1) False] False show ?thesis by simp
  qed
qed

lemma bits_11:
  "[1024, 512, 256, 128, 64, 32, 16, 8, 4, 2, 1 :: nat] = map (\<lambda>i. 2 ^ i) (rev [0..<11])"
  by (simp add: upt_rec numeral_eq_Suc)

lemma dexp_binade:
  assumes "pow2 (- 1022) \<le> \<bar>x\<bar>" "\<bar>x\<bar> < pow2 1024"
  shows "pow2 (dexp x) \<le> \<bar>x\<bar>" "\<bar>x\<bar> < pow2 (dexp x + 1)"
proof -
  define r where "r = foldl (\<lambda>acc b. if pow2 (- 1022 + int (acc + b)) \<le> \<bar>x\<bar> then acc + b else acc)
                        0 (map (\<lambda>i. 2 ^ i) (rev [0..<11]))"
  have d: "dexp x = - 1022 + int r"
    unfolding dexp_def bits_11 r_def by (rule refl)
  have "pow2 1024 \<le> pow2 (- 1022 + int (0 + 2 ^ 11))" by (intro pow2_mono) simp
  with assms(2) have up: "\<not> pow2 (- 1022 + int (0 + 2 ^ 11)) \<le> \<bar>x\<bar>" by simp
  from assms(1) have lo: "pow2 (- 1022 + int 0) \<le> \<bar>x\<bar>" by simp
  have "pow2 (- 1022 + int r) \<le> \<bar>x\<bar> \<and> \<not> pow2 (- 1022 + int (r + 1)) \<le> \<bar>x\<bar>"
    unfolding r_def
    by (rule bit_search[of "\<lambda>j. pow2 (- 1022 + int j) \<le> \<bar>x\<bar>" 0 11, OF lo up])
  then show "pow2 (dexp x) \<le> \<bar>x\<bar>" "\<bar>x\<bar> < pow2 (dexp x + 1)"
    unfolding d by (simp_all add: add.assoc)
qed

lemma search_none:
  "(\<And>b. b \<in> set bs \<Longrightarrow> \<not> P (acc + b)) \<Longrightarrow>
     foldl (\<lambda>acc b. if P (acc + b) then acc + b else acc) acc bs = acc"
  by (induction bs) simp_all

lemma dexp_subnormal:
  assumes "\<bar>x\<bar> < pow2 (- 1022)"
  shows "dexp x = - 1022"
proof -
  have "\<not> pow2 (- 1022 + int (0 + b)) \<le> \<bar>x\<bar>" for b :: nat
  proof -
    have "pow2 (- 1022) \<le> pow2 (- 1022 + int (0 + b))" by (intro pow2_mono) simp
    with assms show ?thesis by simp
  qed
  then have "foldl (\<lambda>acc b. if pow2 (- 1022 + int (acc + b)) \<le> \<bar>x\<bar> then acc + b else acc) 0
               [1024, 512, 256, 128, 64, 32, 16, 8, 4, 2, 1] = 0"
    by (intro search_none[of _ "\<lambda>j. pow2 (- 1022 + int j) \<le> \<bar>x\<bar>"]) blast
  then show ?thesis unfolding dexp_def by (simp only: of_nat_0 add_0_right)
qed

lemma binade_unique:
  assumes "pow2 a \<le> y" "y < pow2 (a + 1)" "pow2 b \<le> y" "y < pow2 (b + 1)"
  shows "a = b"
proof -
  from assms(1,4) have "pow2 a < pow2 (b + 1)" by simp
  then have "a \<le> b" by (simp add: pow2_less_iff)
  moreover from assms(3,2) have "pow2 b < pow2 (a + 1)" by simp
  then have "b \<le> a" by (simp add: pow2_less_iff)
  ultimately show ?thesis by simp
qed

lemma dexp_unique:
  assumes "pow2 e \<le> \<bar>x\<bar>" "\<bar>x\<bar> < pow2 (e + 1)" "- 1022 \<le> e" "e \<le> 1023"
  shows "dexp x = e"
proof -
  have "pow2 (- 1022) \<le> pow2 e" using assms(3) by (rule pow2_mono)
  with assms(1) have lo: "pow2 (- 1022) \<le> \<bar>x\<bar>" by simp
  have "pow2 (e + 1) \<le> pow2 1024" using assms(4) by (intro pow2_mono) simp
  with assms(2) have hi: "\<bar>x\<bar> < pow2 1024" by simp
  from binade_unique[OF dexp_binade[OF lo hi] assms(1,2)] show ?thesis .
qed

subsection \<open>Rounding\<close>

lemma rne_error: "\<bar>of_int (rne q) - q\<bar> \<le> 1 / 2"
proof -
  have "of_int \<lfloor>q\<rfloor> \<le> q" "q < of_int \<lfloor>q\<rfloor> + 1" by linarith+
  then show ?thesis by (auto simp: rne_def Let_def)
qed

lemma rne_of_int [simp]: "rne (of_int n) = n"
  by (simp add: rne_def)

lemma dbl_grid: "\<bar>dbl x - x\<bar> \<le> pow2 (dexp x - 53)"
proof -
  let ?q = "pow2 (dexp x - 52)"
  have q: "0 < ?q" by simp
  have q0: "?q \<noteq> 0" by simp
  have "\<bar>dbl x - x\<bar> = \<bar>of_int (rne (x / ?q)) - x / ?q\<bar> * ?q"
  proof -
    have "dbl x - x = (of_int (rne (x / ?q)) - x / ?q) * ?q"
      using q0 by (simp add: dbl_def Let_def field_simps)
    then show ?thesis by (simp add: abs_mult abs_of_pos[OF q])
  qed
  also have "\<dots> \<le> 1 / 2 * ?q"
    using rne_error[of "x / ?q"] by (intro mult_right_mono) simp_all
  also have "\<dots> = pow2 (dexp x - 53)"
  proof -
    have "?q = pow2 (dexp x - 53) * pow2 1" by (simp add: pow2_add[symmetric])
    moreover have "pow2 1 = 2" by (simp add: pow2_def)
    ultimately show ?thesis by simp
  qed
  finally show ?thesis .
qed

lemma pow2_minus_53: "pow2 (e - 53) = pow2 e / 2 ^ 53"
  by (simp add: pow2_diff pow2_numeral)

lemma dbl_error_normal:
  assumes "pow2 (- 1022) \<le> \<bar>x\<bar>" "\<bar>x\<bar> < pow2 1024"
  shows "\<bar>dbl x - x\<bar> \<le> \<bar>x\<bar> / 2 ^ 53"
proof -
  have "\<bar>dbl x - x\<bar> \<le> pow2 (dexp x) / 2 ^ 53"
    using dbl_grid[of x] by (simp add: pow2_minus_53)
  also have "\<dots> \<le> \<bar>x\<bar> / 2 ^ 53"
    using dexp_binade(1)[OF assms] by (simp add: divide_right_mono)
  finally show ?thesis .
qed

lemma dbl_error:
  assumes "\<bar>x\<bar> < pow2 1024"
  shows "\<bar>dbl x - x\<bar> \<le> \<bar>x\<bar> / 2 ^ 53 + pow2 (- 1075)"
proof (cases "pow2 (- 1022) \<le> \<bar>x\<bar>")
  case True
  have "0 \<le> pow2 (- 1075)" by simp
  with dbl_error_normal[OF True assms] show ?thesis by linarith
next
  case False
  then have "dexp x = - 1022" by (simp add: dexp_subnormal)
  with dbl_grid[of x] have "\<bar>dbl x - x\<bar> \<le> pow2 (- 1075)" by simp
  moreover have "0 \<le> \<bar>x\<bar> / 2 ^ 53" by simp
  ultimately show ?thesis by linarith
qed

subsection \<open>One operation\<close>

lemma tiny: "pow2 (- 1075) \<le> 1 / 2 ^ 200"
proof -
  have "pow2 (- 1075) \<le> pow2 (- 200)" by (rule pow2_mono) simp
  then show ?thesis by (simp add: pow2_neg_numeral)
qed

text \<open>One operation, on operands of moderate size: no overflow, and the rounding error.\<close>

lemma fl_round:
  assumes "\<bar>x\<bar> \<le> 2 ^ 64"
  shows "fl x = Some (dbl x)" and "\<bar>dbl x - x\<bar> \<le> \<bar>x\<bar> / 2 ^ 53 + 1 / 2 ^ 200"
proof -
  have p64: "(2::real) ^ 64 = pow2 64" by (simp add: pow2_numeral)
  have "pow2 64 < pow2 1024" by (simp add: pow2_less_iff)
  with assms p64 have lt: "\<bar>x\<bar> < pow2 1024" by simp
  from dbl_error[OF lt] tiny
  show e: "\<bar>dbl x - x\<bar> \<le> \<bar>x\<bar> / 2 ^ 53 + 1 / 2 ^ 200" by linarith
  have "\<bar>dbl x\<bar> \<le> \<bar>x\<bar> + \<bar>dbl x - x\<bar>" by linarith
  also have "\<dots> \<le> 2 ^ 64 + (2 ^ 64 / 2 ^ 53 + 1 / 2 ^ 200)"
    using e assms by (intro add_mono) (simp_all add: divide_right_mono)
  also have "\<dots> < 2 ^ 65" by simp
  also have "\<dots> = pow2 65" by (simp add: pow2_numeral)
  also have "\<dots> < pow2 1024" by (simp add: pow2_less_iff)
  finally show "fl x = Some (dbl x)" by (simp add: fl_def)
qed

lemma dbl_0 [simp]: "dbl 0 = 0"
  by (simp add: dbl_def rne_def)

text \<open>Integers below \<open>2\<^sup>5\<^sup>3\<close> are doubles.\<close>

lemma dbl_of_int:
  assumes "\<bar>n\<bar> < 2 ^ 53"
  shows "dbl (of_int n) = of_int n"
proof (cases "n = 0")
  case True
  then show ?thesis by simp
next
  case False
  let ?x = "real_of_int n"
  have one: "1 \<le> \<bar>?x\<bar>" using False by (simp flip: of_int_abs)
  have lt: "\<bar>?x\<bar> < 2 ^ 53" using assms by (simp flip: of_int_abs)
  have "pow2 (- 1022) \<le> pow2 0" by (rule pow2_mono) simp
  with one have lo: "pow2 (- 1022) \<le> \<bar>?x\<bar>" by simp
  have "(2::real) ^ 53 = pow2 53" by (simp add: pow2_numeral)
  with lt have lt': "\<bar>?x\<bar> < pow2 53" by simp
  moreover have "pow2 53 \<le> pow2 1024" by (rule pow2_mono) simp
  ultimately have hi: "\<bar>?x\<bar> < pow2 1024" by simp
  note b = dexp_binade[OF lo hi]
  from b(1) lt' have "pow2 (dexp ?x) < pow2 53" by simp
  then have e_hi: "dexp ?x \<le> 52" by (simp add: pow2_less_iff)
  from b(2) one have "pow2 0 < pow2 (dexp ?x + 1)" by simp
  then have "0 < dexp ?x + 1" by (simp only: pow2_less_iff)
  then have e_lo: "0 \<le> dexp ?x" by simp
  define k where "k = nat (52 - dexp ?x)"
  have q: "pow2 (dexp ?x - 52) = 1 / 2 ^ k"
  proof -
    have "dexp ?x - 52 = - int k" using e_hi by (simp add: k_def)
    then show ?thesis by (cases k) (simp_all add: pow2_def nat_add_distrib)
  qed
  have "?x / pow2 (dexp ?x - 52) = of_int (n * 2 ^ k)" by (simp add: q)
  then have "rne (?x / pow2 (dexp ?x - 52)) = n * 2 ^ k" by (simp only: rne_of_int)
  then show ?thesis by (simp add: dbl_def q)
qed

lemma float_of_int_exact: "\<bar>n\<bar> < 2 ^ 53 \<Longrightarrow> float_of_int n = Some (of_int n)"
proof -
  assume a: "\<bar>n\<bar> < 2 ^ 53"
  then have "\<bar>real_of_int n\<bar> < 2 ^ 53" by (simp flip: of_int_abs)
  then have "\<bar>real_of_int n\<bar> \<le> 2 ^ 64" by simp
  from fl_round(1)[OF this] dbl_of_int[OF a] show ?thesis by (simp add: float_of_int_def)
qed

text \<open>Truncation of a value less than one away from an integer.\<close>

lemma py_int_near:
  assumes "\<bar>x - of_int n\<bar> < 1"
  shows "\<bar>py_int x - n\<bar> \<le> 1"
proof -
  have "of_int \<lfloor>x\<rfloor> \<le> x" "x < of_int \<lfloor>x\<rfloor> + 1" "x \<le> of_int \<lceil>x\<rceil>" "of_int \<lceil>x\<rceil> < x + 1"
    by linarith+
  then have "\<bar>real_of_int (py_int x) - x\<bar> < 1"
    by (cases "0 \<le> x") (simp_all add: py_int_def, linarith+)
  with assms have "\<bar>real_of_int (py_int x) - real_of_int n\<bar> < 2"
    by linarith
  then have "\<bar>real_of_int (py_int x - n)\<bar> < 2" by simp
  then have "\<bar>py_int x - n\<bar> < 2" by linarith
  then show ?thesis by simp
qed

text \<open>The same with the numerals written out, as linear arithmetic wants them.\<close>

lemma fl_num:
  assumes "\<bar>x\<bar> \<le> 18446744073709551616"
  shows "fl x = Some (dbl x)"
    and "\<bar>dbl x - x\<bar> \<le> \<bar>x\<bar> / 9007199254740992
           + 1 / 1606938044258990275541962092341162602522202993782792835301376"
  using fl_round[of x] assms by simp_all

text \<open>
  One rounding step of an error analysis: the exact result is bounded by \<open>M\<close>, the error of
  the rounded one by \<open>E\<close>.
\<close>

lemma round_ok:
  assumes "\<bar>y\<bar> \<le> M" and "M \<le> 18446744073709551616"
  shows "fl y = Some (dbl y)"
proof -
  from assms have b: "\<bar>y\<bar> \<le> 18446744073709551616" by linarith
  from fl_num(1)[OF b] show ?thesis .
qed

lemma round_err:
  assumes "\<bar>y\<bar> \<le> M" and "M \<le> 18446744073709551616"
    and "M / 9007199254740992
           + 1 / 1606938044258990275541962092341162602522202993782792835301376 \<le> E"
  shows "\<bar>dbl y - y\<bar> \<le> E"
proof -
  from assms(1,2) have b: "\<bar>y\<bar> \<le> 18446744073709551616" by linarith
  have "\<bar>y\<bar> / 9007199254740992 \<le> M / 9007199254740992"
    using assms(1) by (rule divide_right_mono) simp
  with fl_num(2)[OF b] assms(3) show ?thesis by linarith
qed

subsection \<open>The square root\<close>

lemma isqrt_bounds:
  assumes "0 \<le> n" "n < 2 ^ 106"
  shows "isqrt n * isqrt n \<le> n" "n < (isqrt n + 1) * (isqrt n + 1)" "0 \<le> isqrt n"
proof -
  have up: "\<not> (0 + 2 ^ 53) * (0 + 2 ^ 53) \<le> n" using assms(2) by simp
  have lo: "(0::int) * 0 \<le> n" using assms(1) by simp
  have b: "isqrt n * isqrt n \<le> n \<and> \<not> (isqrt n + 1) * (isqrt n + 1) \<le> n"
    unfolding isqrt_def by (rule bit_search[of "\<lambda>j. j * j \<le> n" 0 53, OF lo up])
  then show 1: "isqrt n * isqrt n \<le> n" and 2: "n < (isqrt n + 1) * (isqrt n + 1)" by simp_all
  show "0 \<le> isqrt n"
  proof (rule ccontr)
    assume "\<not> 0 \<le> isqrt n"
    then have neg: "isqrt n \<le> - 1" by simp
    then have "(isqrt n + 1) * (isqrt n + 1) \<le> isqrt n * isqrt n"
      by (simp add: algebra_simps)
    with 1 2 show False by simp
  qed
qed

lemma sqrt_exp_binade:
  assumes "pow2 (- 1074) \<le> x" "x < pow2 1024"
  shows "pow2 (sqrt_exp x) \<le> sqrt x" "sqrt x < pow2 (sqrt_exp x + 1)" "sqrt_exp x \<le> 511"
    "- 537 \<le> sqrt_exp x"
proof -
  define r where "r = foldl (\<lambda>acc b. if pow2 (- 537 + int (acc + b)) * pow2 (- 537 + int (acc + b)) \<le> x
                                then acc + b else acc)
                    0 (map (\<lambda>i. 2 ^ i) (rev [0..<11]))"
  have d: "sqrt_exp x = - 537 + int r"
    unfolding sqrt_exp_def bits_11 r_def by (rule refl)
  have sq: "pow2 a * pow2 a = pow2 (2 * a)" for a
    by (simp add: pow2_add[symmetric])
  have lo: "pow2 (- 537 + int 0) * pow2 (- 537 + int 0) \<le> x"
    using assms(1) by (simp add: sq)
  have "pow2 1024 \<le> pow2 (2 * (- 537 + int (0 + 2 ^ 11)))" by (rule pow2_mono) simp
  with assms(2) have up: "\<not> pow2 (- 537 + int (0 + 2 ^ 11)) * pow2 (- 537 + int (0 + 2 ^ 11)) \<le> x"
    unfolding sq by linarith
  have b: "pow2 (- 537 + int r) * pow2 (- 537 + int r) \<le> x
         \<and> \<not> pow2 (- 537 + int (r + 1)) * pow2 (- 537 + int (r + 1)) \<le> x"
    unfolding r_def
    by (rule bit_search[of "\<lambda>j. pow2 (- 537 + int j) * pow2 (- 537 + int j) \<le> x" 0 11, OF lo up])
  from b have l: "(pow2 (sqrt_exp x))\<^sup>2 \<le> x"
    unfolding d by (simp add: power2_eq_square)
  from b have u: "x < (pow2 (sqrt_exp x + 1))\<^sup>2"
    unfolding d by (simp add: power2_eq_square add.assoc)
  from l show "pow2 (sqrt_exp x) \<le> sqrt x" by (rule real_le_rsqrt)
  from u show "sqrt x < pow2 (sqrt_exp x + 1)" by (intro real_less_lsqrt) simp_all
  from l assms(2) have "pow2 (2 * sqrt_exp x) < pow2 1024"
    by (simp add: power2_eq_square sq)
  then have "2 * sqrt_exp x < 1024" by (simp only: pow2_less_iff)
  then show "sqrt_exp x \<le> 511" by simp
  show "- 537 \<le> sqrt_exp x" unfolding d by simp
qed

lemma sq_less_iff:
  fixes a b :: real
  assumes "0 \<le> a" "0 \<le> b"
  shows "a\<^sup>2 < b\<^sup>2 \<longleftrightarrow> a < b"
proof
  assume "a\<^sup>2 < b\<^sup>2"
  then show "a < b" using assms(2) by (rule power2_less_imp_less)
next
  assume "a < b"
  then show "a\<^sup>2 < b\<^sup>2" using assms(1) by (intro power_strict_mono) simp_all
qed

lemma dbl_sqrt_correct:
  assumes "pow2 (- 1074) \<le> x" "x < pow2 1024"
  shows "dbl_sqrt x = dbl (sqrt x)"
proof -
  note e = sqrt_exp_binade[OF assms]
  have xpos: "0 < x" using assms(1) pow2_pos[of "- 1074"] by linarith
  then have x0: "x \<noteq> 0" by simp
  have sx0: "0 \<le> sqrt x" using xpos by simp
  then have sx: "\<bar>sqrt x\<bar> = sqrt x" by (rule abs_of_nonneg)
  have de: "dexp (sqrt x) = sqrt_exp x"
  proof (rule dexp_unique)
    show "pow2 (sqrt_exp x) \<le> \<bar>sqrt x\<bar>" unfolding sx by (rule e(1))
    show "\<bar>sqrt x\<bar> < pow2 (sqrt_exp x + 1)" unfolding sx by (rule e(2))
    show "- 1022 \<le> sqrt_exp x" using e(4) by linarith
    show "sqrt_exp x \<le> 1023" using e(3) by linarith
  qed
  define q where "q = pow2 (sqrt_exp x - 52)"
  define Y where "Y = sqrt x / q"
  define X where "X = x / (q * q)"
  define f where "f = isqrt \<lfloor>X\<rfloor>"
  have qpos: "0 < q" by (simp add: q_def)
  have Y0: "0 \<le> Y" using qpos sx0 by (simp add: Y_def)
  have XY: "X = Y * Y" using xpos by (simp add: X_def Y_def)
  have "Y < pow2 (sqrt_exp x + 1) / q"
    using e(2) qpos by (simp add: Y_def divide_strict_right_mono)
  also have "pow2 (sqrt_exp x + 1) / q = pow2 53"
    by (simp add: q_def pow2_diff[symmetric])
  also have "pow2 53 = 2 ^ 53" by (simp add: pow2_numeral)
  finally have Y53: "Y < 2 ^ 53" .
  have "X < 2 ^ 53 * 2 ^ 53"
    unfolding XY using Y0 Y53 by (intro mult_strict_mono) simp_all
  then have X106: "X < 2 ^ 106" by simp
  have X0: "0 \<le> X" unfolding XY using Y0 by simp
  have n0: "0 \<le> \<lfloor>X\<rfloor>" using X0 by simp
  have n106: "\<lfloor>X\<rfloor> < 2 ^ 106"
    using X106 by (simp add: floor_less_iff)
  note i = isqrt_bounds[OF n0 n106, folded f_def]
  have f0: "0 \<le> real_of_int f" using i(3) by simp
  have fle: "real_of_int f \<le> Y"
  proof -
    have "real_of_int (f * f) \<le> real_of_int \<lfloor>X\<rfloor>" using i(1) by (simp only: of_int_le_iff)
    also have "\<dots> \<le> X" by simp
    finally have "(real_of_int f)\<^sup>2 \<le> Y\<^sup>2" by (simp add: XY power2_eq_square)
    then show ?thesis using Y0 by (rule power2_le_imp_le)
  qed
  have flt: "Y < real_of_int f + 1"
  proof -
    have "\<lfloor>X\<rfloor> + 1 \<le> (f + 1) * (f + 1)" using i(2) by simp
    then have "real_of_int (\<lfloor>X\<rfloor> + 1) \<le> real_of_int ((f + 1) * (f + 1))"
      by (simp only: of_int_le_iff)
    moreover have "X < real_of_int (\<lfloor>X\<rfloor> + 1)" by linarith
    ultimately have "X < real_of_int ((f + 1) * (f + 1))" by linarith
    then have "Y\<^sup>2 < (real_of_int f + 1)\<^sup>2" by (simp add: XY power2_eq_square)
    then show ?thesis by (rule power2_less_imp_less) (use f0 in simp)
  qed
  have fl_Y: "\<lfloor>Y\<rfloor> = f" using fle flt by (simp add: floor_unique)
  define h where "h = (real_of_int f + 1 / 2) * (real_of_int f + 1 / 2)"
  have hpos: "0 \<le> real_of_int f + 1 / 2" using f0 by simp
  have lt: "X < h \<longleftrightarrow> Y - real_of_int f < 1 / 2"
  proof -
    have "X < h \<longleftrightarrow> Y\<^sup>2 < (real_of_int f + 1 / 2)\<^sup>2" by (simp add: XY h_def power2_eq_square)
    also have "\<dots> \<longleftrightarrow> Y < real_of_int f + 1 / 2"
      using Y0 hpos by (rule sq_less_iff)
    finally show ?thesis by auto
  qed
  have gt: "h < X \<longleftrightarrow> 1 / 2 < Y - real_of_int f"
  proof -
    have "h < X \<longleftrightarrow> (real_of_int f + 1 / 2)\<^sup>2 < Y\<^sup>2" by (simp add: XY h_def power2_eq_square)
    also have "\<dots> \<longleftrightarrow> real_of_int f + 1 / 2 < Y"
      using hpos Y0 by (rule sq_less_iff)
    finally show ?thesis by auto
  qed
  have r: "rne Y = (if X < h then f else if h < X then f + 1 else if even f then f else f + 1)"
    by (simp add: rne_def fl_Y lt gt)
  have "dbl (sqrt x) = of_int (rne Y) * q"
    by (simp add: dbl_def de q_def Y_def Let_def)
  also have "\<dots> = dbl_sqrt x"
    unfolding r by (simp only: dbl_sqrt_def Let_def x0 if_False X_def h_def f_def q_def)
  finally show ?thesis by simp
qed


section \<open>The calibration curves: from steps to degrees and back\<close>

text \<open>
  Each axis is analysed operation by operation: every intermediate result is the rounded
  exact one, its distance from the value that real arithmetic gives is bounded, and the
  truncation at the end is less than one away from the step count at the start.
\<close>

subsection \<open>The stage\<close>

lemma stage_round_trip:
  assumes "- (2147483648) \<le> s" "s < 2147483648"
  shows "\<exists>r. steps_round_trip 0 s = Some r \<and> \<bar>r - s\<bar> \<le> 1"
proof -
  define x where "x = real_of_int s / 708839"
  define a where "a = dbl x"
  define D where "D = dbl (a * 360)"
  define b where "b = dbl (708839 * D)"
  define c where "c = dbl (b / 360)"
  from assms have "- 2147483648 \<le> s" "s \<le> 2147483648" by simp_all
  then have "real_of_int (- 2147483648) \<le> real_of_int s" "real_of_int s \<le> real_of_int 2147483648"
    by (simp_all only: of_int_le_iff)
  then have sr: "\<bar>real_of_int s\<bar> \<le> 2147483648" by simp
  have xs: "real_of_int s = 708839 * x" by (simp add: x_def)
  have xb: "\<bar>x\<bar> \<le> 3030" using sr unfolding xs by linarith
  have a1: "fl x = Some a" unfolding a_def by (rule fl_num(1)) (use xb in linarith)
  have a2: "\<bar>a - x\<bar> \<le> 1 / 2199023255552"
    using fl_num(2)[of x] xb unfolding a_def by linarith
  have ab: "\<bar>a\<bar> \<le> 3031" using a2 xb by linarith
  have D1: "fl (a * 360) = Some D" unfolding D_def by (rule fl_num(1)) (use ab in linarith)
  have D2: "\<bar>D - a * 360\<bar> \<le> 1 / 4294967296"
    using fl_num(2)[of "a * 360"] ab unfolding D_def by linarith
  have Db: "\<bar>D\<bar> \<le> 2097152" using D2 ab by linarith
  have b1: "fl (708839 * D) = Some b" unfolding b_def by (rule fl_num(1)) (use Db in linarith)
  have b2: "\<bar>b - 708839 * D\<bar> \<le> 1 / 4096"
    using fl_num(2)[of "708839 * D"] Db unfolding b_def by linarith
  have bb: "\<bar>b\<bar> \<le> 2199023255552" using b2 Db by linarith
  have c1: "fl (b / 360) = Some c" unfolding c_def by (rule fl_num(1)) (use bb in linarith)
  have c2: "\<bar>c - b / 360\<bar> \<le> 1 / 1048576"
    using fl_num(2)[of "b / 360"] bb unfolding c_def by linarith
  have "\<bar>c - real_of_int s\<bar> < 1"
    unfolding xs using c2 b2 D2 a2 by linarith
  then have near: "\<bar>py_int c - s\<bar> \<le> 1" by (rule py_int_near)
  have n: "float_of_int 708839 = Some 708839"
    using float_of_int_exact[of 708839] by simp
  have "steps_to_degrees 0 s = Some D"
    by (simp add: steps_to_degrees_def int_truediv_def STAGE_STEPS_PER_REVOLUTION_def
        fmul_def a1[unfolded x_def] D1)
  moreover have "degrees_to_steps 0 D = Some (py_int c)"
    by (simp add: degrees_to_steps_def STAGE_STEPS_PER_REVOLUTION_def n fmul_def fdiv_def b1 c1)
  ultimately show ?thesis using near by (simp add: steps_round_trip_def)
qed

subsection \<open>The nod\<close>
lemma nod_constants:
  "NOD_DEGREE_OFFSET = 4208050901824307 / 140737488355328"
  "NOD_MAX_DEGREES = Some (4032129041380147 / 70368744177664)"
  "float_of_int NOD_MAX_STEPS = Some 141837"
  "fdiv (4032129041380147 / 70368744177664) 141837
     = Some (7452205245623901 / 18446744073709551616)"
  "fdiv 141837 (4032129041380147 / 70368744177664)
     = Some (2721665458095367 / 1099511627776)"
  by (simp_all add: NOD_DEGREE_OFFSET_def NOD_MAX_DEGREES_def NOD_MAX_STEPS_def float_defs
      cong: bind_weak_cong)

lemma steps_to_degrees_axis:
  "steps_to_degrees 0 steps =
     Option.bind (int_truediv steps STAGE_STEPS_PER_REVOLUTION) (\<lambda>a. fmul a 360)"
  "steps_to_degrees 1 steps =
        Option.bind (float_of_int steps) (\<lambda>x.
        Option.bind (math_pow_2 x) (\<lambda>sq.
        Option.bind (fmul (dbl (344 / 10 ^ 13)) sq) (\<lambda>t1.
        Option.bind (fmul (dbl (111 / 10 ^ 6)) x) (\<lambda>t2.
        Option.bind (fadd t1 t2) (\<lambda>t3. fsub t3 TRACK_DEGREE_OFFSET)))))"
  "steps_to_degrees 2 steps =
        Option.bind NOD_MAX_DEGREES (\<lambda>nmd.
        Option.bind (float_of_int NOD_MAX_STEPS) (\<lambda>n.
        Option.bind (fdiv nmd n) (\<lambda>r.
        Option.bind (float_of_int steps) (\<lambda>x.
        Option.bind (fmul r x) (\<lambda>t. fsub t NOD_DEGREE_OFFSET)))))"
  unfolding steps_to_degrees_def by (simp_all only: if_True if_False refl one_neq_zero
      numeral_eq_one_iff zero_neq_numeral numeral_eq_iff semiring_norm num.simps)

lemma degrees_to_steps_axis:
  "degrees_to_steps 0 degrees =
        Option.bind (float_of_int STAGE_STEPS_PER_REVOLUTION) (\<lambda>n.
        Option.bind (fmul n degrees) (\<lambda>b.
        Option.bind (fdiv b 360) (\<lambda>q. Some (py_int q))))"
  "degrees_to_steps 1 degrees =
        Option.bind (fadd TRACK_DEGREE_OFFSET degrees) (\<lambda>y.
        Option.bind (fmul (dbl (1376 / 10 ^ 13)) y) (\<lambda>z.
        Option.bind (fadd (dbl (12321 / 10 ^ 12)) z) (\<lambda>v.
        Option.bind (math_sqrt v) (\<lambda>r.
        Option.bind (fadd (- dbl (111 / 10 ^ 6)) r) (\<lambda>w.
        Option.bind (fdiv w (dbl (688 / 10 ^ 13))) (\<lambda>q. Some (py_int q)))))))"
  "degrees_to_steps 2 degrees =
        Option.bind (float_of_int NOD_MAX_STEPS) (\<lambda>n.
        Option.bind NOD_MAX_DEGREES (\<lambda>nmd.
        Option.bind (fdiv n nmd) (\<lambda>r.
        Option.bind (fadd degrees NOD_DEGREE_OFFSET) (\<lambda>u.
        Option.bind (fmul r u) (\<lambda>q. Some (py_int q))))))"
  unfolding degrees_to_steps_def by (simp_all only: if_True if_False refl one_neq_zero
      numeral_eq_one_iff zero_neq_numeral numeral_eq_iff semiring_norm num.simps)

lemma nod_round_trip:
  assumes "0 \<le> s" "s \<le> 141837"
  shows "\<exists>r. steps_round_trip 2 s = Some r \<and> \<bar>r - s\<bar> \<le> 1"
proof -
  define x where "x = real_of_int s"
  define t where "t = dbl (7452205245623901 / 18446744073709551616 * x)"
  define d where "d = dbl (t - 4208050901824307 / 140737488355328)"
  define u where "u = dbl (d + 4208050901824307 / 140737488355328)"
  define w where "w = dbl (2721665458095367 / 1099511627776 * u)"
  from assms have "real_of_int 0 \<le> real_of_int s" "real_of_int s \<le> real_of_int 141837"
    by (simp_all only: of_int_le_iff)
  then have x0: "0 \<le> x" and x1: "x \<le> 141837" by (simp_all add: x_def)
  have t0: "\<bar>7452205245623901 / 18446744073709551616 * x\<bar> \<le> 58"
    using x0 x1 by linarith
  have t1: "fl (7452205245623901 / 18446744073709551616 * x) = Some t"
    unfolding t_def by (rule round_ok[OF t0]) simp
  have t2: "\<bar>t - 7452205245623901 / 18446744073709551616 * x\<bar> \<le> 1 / 140737488355328"
    unfolding t_def by (rule round_err[OF t0]) simp_all
  have d0: "\<bar>t - 4208050901824307 / 140737488355328\<bar> \<le> 89"
    using t2 t0 by linarith
  have d1: "fl (t - 4208050901824307 / 140737488355328) = Some d"
    unfolding d_def by (rule round_ok[OF d0]) simp
  have d2: "\<bar>d - (t - 4208050901824307 / 140737488355328)\<bar> \<le> 1 / 70368744177664"
    unfolding d_def by (rule round_err[OF d0]) simp_all
  have u0: "\<bar>d + 4208050901824307 / 140737488355328\<bar> \<le> 59"
    using d2 t2 t0 by linarith
  have u1: "fl (d + 4208050901824307 / 140737488355328) = Some u"
    unfolding u_def by (rule round_ok[OF u0]) simp
  have u2: "\<bar>u - (d + 4208050901824307 / 140737488355328)\<bar> \<le> 1 / 70368744177664"
    unfolding u_def by (rule round_err[OF u0]) simp_all
  have ut: "\<bar>u - 7452205245623901 / 18446744073709551616 * x\<bar> \<le> 1 / 17592186044416"
    using u2 d2 t2 by linarith
  have w0: "\<bar>2721665458095367 / 1099511627776 * u\<bar> \<le> 150000"
    using ut x0 x1 by linarith
  have w1: "fl (2721665458095367 / 1099511627776 * u) = Some w"
    unfolding w_def by (rule round_ok[OF w0]) simp
  have w2: "\<bar>w - 2721665458095367 / 1099511627776 * u\<bar> \<le> 1 / 34359738368"
    unfolding w_def by (rule round_err[OF w0]) simp_all
  have "\<bar>w - x\<bar> < 1"
    using w2 ut x0 x1 by linarith
  then have "\<bar>w - real_of_int s\<bar> < 1" by (simp add: x_def)
  then have near: "\<bar>py_int w - s\<bar> \<le> 1" by (rule py_int_near)
  have xs: "float_of_int s = Some x"
    unfolding x_def using assms by (intro float_of_int_exact) simp
  have "steps_to_degrees 2 s = Some d"
    by (simp only: steps_to_degrees_axis nod_constants xs fmul_def fsub_def t1 d1
        Option.bind.simps)
  moreover have "degrees_to_steps 2 d = Some (py_int w)"
    by (simp only: degrees_to_steps_axis nod_constants fadd_def fmul_def u1 w1
        Option.bind.simps)
  ultimately show ?thesis using near by (simp only: steps_round_trip_def Option.bind.simps) simp
qed

subsection \<open>The track\<close>

text \<open>
  The forward map is \<open>d = a x\<^sup>2 + b x - o\<close>, the inverse \<open>(- b + sqrt (c + 4 a (o + d))) / (2 a)\<close>
  with \<open>c\<close> the double nearest to \<open>b\<^sup>2\<close>: the radicand is the square of \<open>2 a x + b\<close> up to the
  rounding of the constants.
\<close>

lemma track_constants:
  "dbl (344 / 10 ^ 13) = 5323142168927135 / 154742504910672534362390528"
  "dbl (111 / 10 ^ 6) = 8190354368727041 / 73786976294838206464"
  "TRACK_DEGREE_OFFSET = 4700632111067955 / 281474976710656"
  "dbl (12321 / 10 ^ 12) = 7447587511735923 / 604462909807314587353088"
  "dbl (1376 / 10 ^ 13) = 4 * (5323142168927135 / 154742504910672534362390528)"
  "dbl (688 / 10 ^ 13) = 2 * (5323142168927135 / 154742504910672534362390528)"
  by (simp_all add: TRACK_DEGREE_OFFSET_def float_defs)

lemma track_identity:
  fixes a b c x :: real
  shows "c + 4 * a * (a * (x * x) + b * x) = (2 * a * x + b) * (2 * a * x + b) + (c - b * b)"
  by (simp add: algebra_simps)

lemma track_round_trip:
  assumes "0 \<le> s" "s \<le> 779720"
  shows "\<exists>r. steps_round_trip 1 s = Some r \<and> \<bar>r - s\<bar> \<le> 1"
proof -
  define x where "x = real_of_int s"
  define \<sigma> where "\<sigma> = x * x"
  define T where "T = 2 * (5323142168927135 / 154742504910672534362390528) * x + 8190354368727041 / 73786976294838206464"
  define m where "m = 5323142168927135 / 154742504910672534362390528 * \<sigma> + 8190354368727041 / 73786976294838206464 * x"
  define t1 where "t1 = dbl (5323142168927135 / 154742504910672534362390528 * \<sigma>)"
  define t2 where "t2 = dbl (8190354368727041 / 73786976294838206464 * x)"
  define t3 where "t3 = dbl (t1 + t2)"
  define d where "d = dbl (t3 - 4700632111067955 / 281474976710656)"
  define y where "y = dbl (4700632111067955 / 281474976710656 + d)"
  define z where "z = dbl (4 * (5323142168927135 / 154742504910672534362390528) * y)"
  define v where "v = dbl (7447587511735923 / 604462909807314587353088 + z)"
  define r where "r = dbl (sqrt v)"
  define w where "w = dbl (- (8190354368727041 / 73786976294838206464) + r)"
  define u where "u = w / (2 * (5323142168927135 / 154742504910672534362390528))"
  define c where "c = dbl u"
  from assms have "real_of_int 0 \<le> real_of_int s" "real_of_int s \<le> real_of_int 779720"
    by (simp_all only: of_int_le_iff)
  then have x0: "0 \<le> x" and x1: "x \<le> 779720" by (simp_all add: x_def)
  have s0: "0 \<le> \<sigma>" unfolding \<sigma>_def using x0 by simp
  have "x * x \<le> 779720 * 779720" using x0 x1 by (intro mult_mono) simp_all
  then have s1: "\<sigma> \<le> 607963278400" by (simp add: \<sigma>_def)
  \<comment> \<open>from steps to degrees\<close>
  have t1_0: "\<bar>5323142168927135 / 154742504910672534362390528 * \<sigma>\<bar> \<le> 21" using s0 s1 by linarith
  have t1_1: "fl (5323142168927135 / 154742504910672534362390528 * \<sigma>) = Some t1"
    unfolding t1_def by (rule round_ok[OF t1_0]) simp
  have t1_2: "\<bar>t1 - 5323142168927135 / 154742504910672534362390528 * \<sigma>\<bar> \<le> 1 / 281474976710656"
    unfolding t1_def by (rule round_err[OF t1_0]) simp_all
  have t2_0: "\<bar>8190354368727041 / 73786976294838206464 * x\<bar> \<le> 87" using x0 x1 by linarith
  have t2_1: "fl (8190354368727041 / 73786976294838206464 * x) = Some t2"
    unfolding t2_def by (rule round_ok[OF t2_0]) simp
  have t2_2: "\<bar>t2 - 8190354368727041 / 73786976294838206464 * x\<bar> \<le> 1 / 70368744177664"
    unfolding t2_def by (rule round_err[OF t2_0]) simp_all
  have t3_0: "\<bar>t1 + t2\<bar> \<le> 108" using t1_2 t2_2 s0 s1 x0 x1 by linarith
  have t3_1: "fl (t1 + t2) = Some t3"
    unfolding t3_def by (rule round_ok[OF t3_0]) simp
  have t3_2: "\<bar>t3 - (t1 + t2)\<bar> \<le> 1 / 70368744177664"
    unfolding t3_def by (rule round_err[OF t3_0]) simp_all
  have d_0: "\<bar>t3 - 4700632111067955 / 281474976710656\<bar> \<le> 108" using t3_2 t1_2 t2_2 s0 s1 x0 x1 by linarith
  have d_1: "fl (t3 - 4700632111067955 / 281474976710656) = Some d"
    unfolding d_def by (rule round_ok[OF d_0]) simp
  have d_2: "\<bar>d - (t3 - 4700632111067955 / 281474976710656)\<bar> \<le> 1 / 70368744177664"
    unfolding d_def by (rule round_err[OF d_0]) simp_all
  \<comment> \<open>and back\<close>
  have y_0: "\<bar>4700632111067955 / 281474976710656 + d\<bar> \<le> 108" using d_2 t3_2 t1_2 t2_2 s0 s1 x0 x1 by linarith
  have y_1: "fl (4700632111067955 / 281474976710656 + d) = Some y"
    unfolding y_def by (rule round_ok[OF y_0]) simp
  have y_2: "\<bar>y - (4700632111067955 / 281474976710656 + d)\<bar> \<le> 1 / 70368744177664"
    unfolding y_def by (rule round_err[OF y_0]) simp_all
  have y_s: "\<bar>y - m\<bar> \<le> 1 / 8796093022208"
    unfolding m_def using y_2 d_2 t3_2 t1_2 t2_2 by linarith
  have m0: "0 \<le> m" and m1: "m \<le> 1075 / 10"
    unfolding m_def using s0 s1 x0 x1 by linarith+
  have z_0: "\<bar>4 * (5323142168927135 / 154742504910672534362390528) * y\<bar> \<le> 1 / 67108864" using y_s m0 m1 by linarith
  have z_1: "fl (4 * (5323142168927135 / 154742504910672534362390528) * y) = Some z"
    unfolding z_def by (rule round_ok[OF z_0]) simp
  have z_2: "\<bar>z - 4 * (5323142168927135 / 154742504910672534362390528) * y\<bar> \<le> 1 / 302231454903657293676544"
    unfolding z_def by (rule round_err[OF z_0]) simp_all
  have v_0: "\<bar>7447587511735923 / 604462909807314587353088 + z\<bar> \<le> 1 / 33554432" using z_2 y_s m0 m1 by linarith
  have v_1: "fl (7447587511735923 / 604462909807314587353088 + z) = Some v"
    unfolding v_def by (rule round_ok[OF v_0]) simp
  have v_2: "\<bar>v - (7447587511735923 / 604462909807314587353088 + z)\<bar> \<le> 1 / 151115727451828646838272"
    unfolding v_def by (rule round_err[OF v_0]) simp_all
  have v_s: "\<bar>v - (7447587511735923 / 604462909807314587353088 + 4 * (5323142168927135 / 154742504910672534362390528) * m)\<bar> \<le> 1 / 18889465931478580854784"
    using v_2 z_2 y_s by linarith
  have "7447587511735923 / 604462909807314587353088 + 4 * (5323142168927135 / 154742504910672534362390528) * m = T * T + (7447587511735923 / 604462909807314587353088 - (8190354368727041 / 73786976294838206464) * (8190354368727041 / 73786976294838206464))"
    unfolding T_def \<sigma>_def m_def by (rule track_identity)
  moreover have "\<bar>7447587511735923 / 604462909807314587353088 - (8190354368727041 / 73786976294838206464) * (8190354368727041 / 73786976294838206464)\<bar> \<le> (1 / 2417851639229258349412352 :: real)" by simp
  ultimately have v_T: "\<bar>v - T * T\<bar> \<le> 1 / 9444732965739290427392" using v_s by linarith
  have T0: "8190354368727041 / 73786976294838206464 \<le> T" and T1: "T \<le> 1 / 4096"
    unfolding T_def using x0 x1 by linarith+
  \<comment> \<open>the square root lies within \<open>\<zeta> = 2\<^sup>-\<^sup>6\<^sup>0\<close> of \<open>T\<close>\<close>
  have lo_id: "(T - 1 / 1152921504606846976)\<^sup>2 = T * T - 2 * (1 / 1152921504606846976) * T + (1 / 1152921504606846976) * (1 / 1152921504606846976)"
    by (simp add: power2_eq_square algebra_simps)
  have hi_id: "(T + 1 / 1152921504606846976)\<^sup>2 = T * T + 2 * (1 / 1152921504606846976) * T + (1 / 1152921504606846976) * (1 / 1152921504606846976)"
    by (simp add: power2_eq_square algebra_simps)
  have "(T - 1 / 1152921504606846976)\<^sup>2 \<le> v" unfolding lo_id using v_T T0 by linarith
  then have r_lo: "T - 1 / 1152921504606846976 \<le> sqrt v" by (rule real_le_rsqrt)
  have "v \<le> (T + 1 / 1152921504606846976)\<^sup>2" unfolding hi_id using v_T T0 by linarith
  then have r_hi: "sqrt v \<le> T + 1 / 1152921504606846976" by (intro real_le_lsqrt) (use T0 in linarith)
  have r_0: "\<bar>sqrt v\<bar> \<le> 1 / 2048" using r_lo r_hi T0 T1 by linarith
  have r_2: "\<bar>r - sqrt v\<bar> \<le> 1 / 9223372036854775808"
    unfolding r_def by (rule round_err[OF r_0]) simp_all
  have r_T: "\<bar>r - T\<bar> \<le> 1 / 576460752303423488" using r_2 r_lo r_hi by linarith
  have w_0: "\<bar>- (8190354368727041 / 73786976294838206464) + r\<bar> \<le> 1 / 8192" using r_T x0 x1 unfolding T_def by linarith
  have w_1: "fl (- (8190354368727041 / 73786976294838206464) + r) = Some w"
    unfolding w_def by (rule round_ok[OF w_0]) simp
  have w_2: "\<bar>w - (- (8190354368727041 / 73786976294838206464) + r)\<bar> \<le> 1 / 36893488147419103232"
    unfolding w_def by (rule round_err[OF w_0]) simp_all
  have w_s: "\<bar>w - 2 * (5323142168927135 / 154742504910672534362390528) * x\<bar> \<le> 1 / 288230376151711744"
    using w_2 r_T unfolding T_def by linarith
  have uw: "u * (2 * (5323142168927135 / 154742504910672534362390528)) = w" by (simp add: u_def)
  have u_s: "\<bar>u - x\<bar> \<le> 1 / 1048576" using w_s uw by linarith
  have c_0: "\<bar>u\<bar> \<le> 1048576" using u_s x0 x1 by linarith
  have c_1: "fl u = Some c"
    unfolding c_def by (rule round_ok[OF c_0]) simp
  have c_2: "\<bar>c - u\<bar> \<le> 1 / 4294967296"
    unfolding c_def by (rule round_err[OF c_0]) simp_all
  have "\<bar>c - x\<bar> < 1" using c_2 u_s by linarith
  then have "\<bar>c - real_of_int s\<bar> < 1" by (simp add: x_def)
  then have near: "\<bar>py_int c - s\<bar> \<le> 1" by (rule py_int_near)
  \<comment> \<open>the two computations\<close>
  have xs: "float_of_int s = Some x"
    unfolding x_def using assms by (intro float_of_int_exact) simp
  have "s * s \<le> 779720 * 779720" using assms by (intro mult_mono) simp_all
  moreover have "0 \<le> s * s" by simp
  ultimately have "\<bar>s * s\<bar> < 2 ^ 53" by simp
  from float_of_int_exact[OF this] have pw: "math_pow_2 x = Some \<sigma>"
    by (simp add: math_pow_2_def float_of_int_def x_def \<sigma>_def)
  have v_lo: "1 / 1073741824 \<le> v" and v_hi: "v \<le> 1"
  proof -
    have "(8190354368727041 / 73786976294838206464) * (8190354368727041 / 73786976294838206464) \<le> T * T"
      using T0 by (intro mult_mono) simp_all
    then show "1 / 1073741824 \<le> v" using v_T by linarith
    have "T * T \<le> (1 / 4096) * (1 / 4096)"
      using T0 T1 by (intro mult_mono) simp_all
    then show "v \<le> 1" using v_T by linarith
  qed
  have "pow2 (- 1074) \<le> pow2 (- 30)" by (rule pow2_mono) simp
  also have "\<dots> = 1 / 1073741824" by (simp add: pow2_neg_numeral)
  finally have v1: "pow2 (- 1074) \<le> v" using v_lo by linarith
  have "pow2 0 \<le> pow2 1023" by (rule pow2_mono) simp
  moreover have "pow2 1023 < pow2 1024" by (simp add: pow2_less_iff)
  ultimately have v2: "v < pow2 1024" using v_hi by simp
  have sq: "math_sqrt v = Some r"
    using v_lo by (simp add: math_sqrt_def r_def dbl_sqrt_correct[OF v1 v2])
  have ne: "(2 * (5323142168927135 / 154742504910672534362390528) = (0::real)) = False" by simp
  have "steps_to_degrees 1 s = Some d"
    by (simp only: steps_to_degrees_axis xs pw track_constants fmul_def fadd_def fsub_def
        t1_1 t2_1 t3_1 d_1 Option.bind.simps)
  moreover have "degrees_to_steps 1 d = Some (py_int c)"
    by (simp only: degrees_to_steps_axis track_constants fmul_def fadd_def fdiv_def
        y_1 z_1 v_1 sq w_1 ne if_False c_1[unfolded u_def] Option.bind.simps)
  ultimately show ?thesis
    using near by (simp only: steps_round_trip_def Option.bind.simps) simp
qed

subsection \<open>All three axes\<close>

text \<open>
  Claim C7. For each of the three axes (0 the stage, 1 the track, 2 the nod) and every valid
  step count \<open>s\<close>, \<^verbatim>\<open>steps_to_degrees\<close> followed by \<^verbatim>\<open>degrees_to_steps\<close> returns, without an
  exception, a step count within one step of \<open>s\<close>.
\<close>

theorem steps_degrees_round_trip:
  assumes "valid_steps ax s"
  shows "\<exists>r. steps_round_trip ax s = Some r \<and> \<bar>r - s\<bar> \<le> 1"
proof -
  consider (stage) "ax = 0" | (track) "ax = 1" | (nod) "ax = 2"
    using assms unfolding valid_steps_def by (cases "ax = 0"; cases "ax = 1") simp_all
  then show ?thesis
  proof cases
    case stage
    from assms have "- (2 ^ 31) \<le> s" "s < 2 ^ 31"
      unfolding valid_steps_def stage by simp_all
    then have "- 2147483648 \<le> s" "s < 2147483648" by simp_all
    from stage_round_trip[OF this] show ?thesis unfolding stage .
  next
    case track
    from assms have "0 \<le> s" "s \<le> 779720"
      unfolding valid_steps_def track TRACK_MAX_STEPS_def by simp_all
    from track_round_trip[OF this] show ?thesis unfolding track .
  next
    case nod
    from assms have "0 \<le> s" "s \<le> 141837"
      unfolding valid_steps_def nod NOD_MAX_STEPS_def by simp_all
    from nod_round_trip[OF this] show ?thesis unfolding nod .
  qed
qed

text \<open>The ends of the travel of the track and of the nod, and a stage wound ten turns back.\<close>

theorem steps_degrees_round_trip_witness:
  "valid_steps 1 779720 \<and> (\<exists>r. steps_round_trip 1 779720 = Some r \<and> \<bar>r - 779720\<bar> \<le> 1) \<and>
   valid_steps 2 141837 \<and> (\<exists>r. steps_round_trip 2 141837 = Some r \<and> \<bar>r - 141837\<bar> \<le> 1) \<and>
   valid_steps 0 (- 7088390) \<and>
     (\<exists>r. steps_round_trip 0 (- 7088390) = Some r \<and> \<bar>r - (- 7088390)\<bar> \<le> 1)"
proof -
  have 1: "valid_steps 1 779720" by (simp add: valid_steps_def TRACK_MAX_STEPS_def)
  have 2: "valid_steps 2 141837" by (simp add: valid_steps_def NOD_MAX_STEPS_def)
  have 0: "valid_steps 0 (- 7088390)" by (simp add: valid_steps_def)
  from 1 2 0 steps_degrees_round_trip[OF 1] steps_degrees_round_trip[OF 2]
    steps_degrees_round_trip[OF 0]
  show ?thesis by (intro conjI)
qed

section \<open>Revolution tracking: the nearest turn\<close>

subsection \<open>Floor division and remainder by 360\<close>

lemma stage_degrees:
  assumes "- (2147483648) \<le> s" "s < 2147483648"
  shows "\<exists>D. steps_to_degrees 0 s = Some D \<and> \<bar>D\<bar> \<le> 2097152"
proof -
  define x where "x = real_of_int s / 708839"
  define a where "a = dbl x"
  define D where "D = dbl (a * 360)"
  from assms have "- 2147483648 \<le> s" "s \<le> 2147483648" by simp_all
  then have "real_of_int (- 2147483648) \<le> real_of_int s" "real_of_int s \<le> real_of_int 2147483648"
    by (simp_all only: of_int_le_iff)
  then have sr: "\<bar>real_of_int s\<bar> \<le> 2147483648" by simp
  have xs: "real_of_int s = 708839 * x" by (simp add: x_def)
  have xb: "\<bar>x\<bar> \<le> 3030" using sr unfolding xs by linarith
  have a1: "fl x = Some a" unfolding a_def by (rule fl_num(1)) (use xb in linarith)
  have a2: "\<bar>a - x\<bar> \<le> 1 / 2199023255552"
    using fl_num(2)[of x] xb unfolding a_def by linarith
  have ab: "\<bar>a\<bar> \<le> 3031" using a2 xb by linarith
  have D1: "fl (a * 360) = Some D" unfolding D_def by (rule fl_num(1)) (use ab in linarith)
  have D2: "\<bar>D - a * 360\<bar> \<le> 1 / 4294967296"
    using fl_num(2)[of "a * 360"] ab unfolding D_def by linarith
  have Db: "\<bar>D\<bar> \<le> 2097152" using D2 ab by linarith
  have "steps_to_degrees 0 s = Some D"
    by (simp add: steps_to_degrees_def int_truediv_def STAGE_STEPS_PER_REVOLUTION_def
        fmul_def a1[unfolded x_def] D1)
  with Db show ?thesis by simp
qed

text \<open>Truncation and floor.\<close>

lemma py_int_floor:
  "py_int x = (if x < of_int (py_int x) then \<lfloor>x\<rfloor> + 1 else \<lfloor>x\<rfloor>)"
proof (cases "0 \<le> x")
  case True
  then show ?thesis by (simp add: py_int_def not_less)
next
  case False
  then have p: "py_int x = \<lceil>x\<rceil>" by (simp add: py_int_def)
  show ?thesis
  proof (cases "x < of_int \<lceil>x\<rceil>")
    case True
    have "of_int \<lfloor>x\<rfloor> \<le> x" "x < of_int \<lfloor>x\<rfloor> + 1" "of_int \<lceil>x\<rceil> < x + 1" by linarith+
    with True have "\<lceil>x\<rceil> = \<lfloor>x\<rfloor> + 1" by linarith
    with True show ?thesis by (simp add: p)
  next
    case F: False
    have "x \<le> of_int \<lceil>x\<rceil>" by linarith
    with F have "x = of_int \<lceil>x\<rceil>" by linarith
    then have "\<lfloor>x\<rfloor> = \<lceil>x\<rceil>" by (metis floor_of_int)
    with F show ?thesis by (simp add: p)
  qed
qed

lemma py_int_abs: "\<bar>real_of_int (py_int x)\<bar> \<le> \<bar>x\<bar>"
proof (cases "0 \<le> x")
  case True
  have "of_int \<lfloor>x\<rfloor> \<le> x" by linarith
  moreover have "0 \<le> real_of_int \<lfloor>x\<rfloor>" using True by simp
  moreover have "py_int x = \<lfloor>x\<rfloor>" using True by (simp add: py_int_def)
  ultimately show ?thesis using True by simp
next
  case False
  have "x \<le> of_int \<lceil>x\<rceil>" by linarith
  moreover have "real_of_int \<lceil>x\<rceil> \<le> 0" using False by (simp add: ceiling_le_iff)
  moreover have "py_int x = \<lceil>x\<rceil>" using False by (simp add: py_int_def)
  ultimately show ?thesis using False by simp
qed

lemma fl_of_int: "\<bar>n\<bar> < 2 ^ 53 \<Longrightarrow> fl (of_int n) = Some (of_int n)"
  using float_of_int_exact[of n] by (simp add: float_of_int_def)

lemma fmod_360:
  fixes D :: real
  defines "n0 \<equiv> \<lfloor>D / 360\<rfloor>"
  shows "fmod D 360 < 0 \<Longrightarrow> py_int (D / 360) = n0 + 1"
    and "\<not> fmod D 360 < 0 \<Longrightarrow> py_int (D / 360) = n0"
    and "fmod D 360 = D - 360 * of_int (py_int (D / 360))"
proof -
  have m: "fmod D 360 < 0 \<longleftrightarrow> D / 360 < of_int (py_int (D / 360))"
    by (simp add: fmod_def field_simps)
  show "fmod D 360 < 0 \<Longrightarrow> py_int (D / 360) = n0 + 1"
    unfolding m n0_def using py_int_floor[of "D / 360"] by simp
  show "\<not> fmod D 360 < 0 \<Longrightarrow> py_int (D / 360) = n0"
    unfolding m n0_def using py_int_floor[of "D / 360"] by simp
  show "fmod D 360 = D - 360 * of_int (py_int (D / 360))" by (simp add: fmod_def)
qed

lemma floor_360_bound:
  fixes D :: real
  assumes "\<bar>D\<bar> \<le> 2097152"
  shows "\<bar>\<lfloor>D / 360\<rfloor>\<bar> \<le> 5826" "\<bar>py_int (D / 360)\<bar> \<le> 5826"
proof -
  have x: "\<bar>D / 360\<bar> \<le> 5826" using assms by (simp add: field_simps)
  then have "- 5826 \<le> D / 360" "D / 360 \<le> 5826" by linarith+
  then have "- 5826 \<le> \<lfloor>D / 360\<rfloor>" "\<lfloor>D / 360\<rfloor> \<le> 5826"
    by (simp_all add: le_floor_iff floor_le_iff) 
  then show "\<bar>\<lfloor>D / 360\<rfloor>\<bar> \<le> 5826" by linarith
  from py_int_abs[of "D / 360"] x have "\<bar>real_of_int (py_int (D / 360))\<bar> \<le> 5826" by linarith
  then show "\<bar>py_int (D / 360)\<bar> \<le> 5826" by linarith
qed

lemma fl_0: "fl 0 = Some 0"
  by (simp add: fl_def)

lemma py_floordiv_360:
  assumes "\<bar>D\<bar> \<le> 2097152"
  shows "py_floordiv D 360 = Some (of_int \<lfloor>D / 360\<rfloor>)"
proof -
  define kt where "kt = py_int (D / 360)"
  define m where "m = fmod D 360"
  define n0 where "n0 = \<lfloor>D / 360\<rfloor>"
  note b = floor_360_bound[OF assms, folded kt_def n0_def]
  have mk: "D - m = of_int (360 * kt)"
    unfolding m_def kt_def by (simp add: fmod_def)
  have "\<bar>360 * kt\<bar> < 2 ^ 53" using b(2) by simp
  from fl_of_int[OF this] have a: "fsub D m = Some (of_int (360 * kt))"
    by (simp add: fsub_def mk)
  have "\<bar>kt\<bar> < 2 ^ 53" using b(2) by simp
  from fl_of_int[OF this] have d: "fdiv (of_int (360 * kt)) 360 = Some (of_int kt)"
    by (simp add: fdiv_def)
  have c: "(if m \<noteq> 0 \<and> ((360::real) < 0) \<noteq> (m < 0) then fsub (of_int kt) 1 else Some (of_int kt))
            = Some (of_int n0)"
  proof (cases "m < 0")
    case True
    from fmod_360(1)[of D] True have k: "kt = n0 + 1" by (simp add: m_def kt_def n0_def)
    have "\<bar>n0\<bar> < 2 ^ 53" using b(1) by simp
    from fl_of_int[OF this] have "fsub (of_int kt) 1 = Some (of_int n0)"
      by (simp add: fsub_def k)
    with True show ?thesis by simp
  next
    case False
    from fmod_360(2)[of D] False have k: "kt = n0" by (simp add: m_def kt_def n0_def)
    with False show ?thesis by simp
  qed
  have e: "(if real_of_int n0 \<noteq> 0
            then Option.bind (fsub (of_int n0) (of_int \<lfloor>real_of_int n0\<rfloor>))
                   (\<lambda>e. if 1 / 2 < e then fadd (of_int \<lfloor>real_of_int n0\<rfloor>) 1
                        else Some (of_int \<lfloor>real_of_int n0\<rfloor>))
            else Some 0) = Some (of_int n0)"
    by (simp add: fsub_def fl_0)
  have ne: "((360::real) = 0) = False" by simp
  show ?thesis
    unfolding py_floordiv_def Let_def m_def[symmetric] n0_def[symmetric]
    by (simp only: ne if_False a d c e Option.bind.simps)
qed

lemma py_mod_360:
  assumes "\<bar>D\<bar> \<le> 2097152"
  shows "\<exists>md. py_mod D 360 = Some md \<and> \<bar>md - (D - 360 * of_int \<lfloor>D / 360\<rfloor>)\<bar> \<le> 1 / 17592186044416"
proof -
  define m where "m = fmod D 360"
  define n0 where "n0 = \<lfloor>D / 360\<rfloor>"
  have ne: "((360::real) = 0) = False" by simp
  have R: "0 \<le> D - 360 * of_int n0" "D - 360 * of_int n0 < 360"
  proof -
    have "of_int n0 \<le> D / 360" "D / 360 < of_int n0 + 1" unfolding n0_def by linarith+
    then show "0 \<le> D - 360 * of_int n0" "D - 360 * of_int n0 < 360"
      by (simp_all add: field_simps)
  qed
  show ?thesis
  proof (cases "m < 0")
    case True
    from fmod_360(1)[of D] True have k: "py_int (D / 360) = n0 + 1" by (simp add: m_def n0_def)
    have mR: "m + 360 = D - 360 * of_int n0"
      unfolding m_def fmod_360(3) k by simp
    have y0: "\<bar>m + 360\<bar> \<le> 360" unfolding mR using R by linarith
    have y1: "fl (m + 360) = Some (dbl (m + 360))" by (rule round_ok[OF y0]) simp
    have y2: "\<bar>dbl (m + 360) - (m + 360)\<bar> \<le> 1 / 17592186044416"
      by (rule round_err[OF y0]) simp_all
    have c: "(m \<noteq> 0 \<and> ((360::real) < 0) \<noteq> (m < 0)) = True" using True by simp
    have "py_mod D 360 = Some (dbl (m + 360))"
      unfolding py_mod_def Let_def m_def[symmetric]
      by (simp only: ne c if_False if_True fadd_def y1)
    with y2 show ?thesis unfolding mR n0_def by simp
  next
    case False
    from fmod_360(2)[of D] False have k: "py_int (D / 360) = n0" by (simp add: m_def n0_def)
    have mR: "m = D - 360 * of_int n0"
      unfolding m_def fmod_360(3) k by simp
    have c: "(m \<noteq> 0 \<and> ((360::real) < 0) \<noteq> (m < 0)) = False" using False by simp
    have "py_mod D 360 = Some m"
      unfolding py_mod_def Let_def m_def[symmetric]
      by (simp only: ne c if_False)
    then show ?thesis unfolding mR n0_def by simp
  qed
qed

subsection \<open>The stage target\<close>

lemma nearest_of_half_turn:
  fixes X :: real and i :: int
  assumes "\<bar>X\<bar> \<le> 180 + 1 / 2199023255552"
  shows "\<bar>X\<bar> \<le> \<bar>X + 360 * of_int i\<bar> + 1 / 1099511627776"
proof -
  consider "i = 0" | "1 \<le> i" | "i \<le> - 1" by linarith
  then show ?thesis
  proof cases
    case 1
    then show ?thesis by simp
  next
    case 2
    then have "real_of_int 1 \<le> real_of_int i" by (simp only: of_int_le_iff)
    then have "1 \<le> real_of_int i" by simp
    with assms show ?thesis by linarith
  next
    case 3
    then have "real_of_int i \<le> real_of_int (- 1)" by (simp only: of_int_le_iff)
    then have "real_of_int i \<le> - 1" by simp
    with assms show ?thesis by linarith
  qed
qed

text \<open>
  Claim C6, as the doubles allow it. For every valid step count of the stage, \<open>D\<close> the
  degrees derived from it, and every requested \<open>\<theta>\<close> in \<open>[0, 360)\<close>, the stage target of
  \<^verbatim>\<open>positions_to_degrees\<close> is computed without an exception and is the double nearest to
  \<open>\<theta> + 360 n\<close> for an integer \<open>n\<close> (so within \<open>2\<^sup>-\<^sup>3\<^sup>1\<close> of it); and \<open>\<theta> + 360 n\<close> is, up to
  \<open>2\<^sup>-\<^sup>4\<^sup>0\<close> degrees, as near to \<open>D\<close> as any value congruent to \<open>\<theta>\<close> modulo 360.
\<close>

theorem stage_target_nearest_revolution:
  assumes v: "valid_steps 0 s" and t0: "0 \<le> \<theta>" and t1: "\<theta> < 360"
  shows "\<exists>D n. steps_to_degrees 0 s = Some D
           \<and> stage_motor_degrees s \<theta> = Some (dbl (\<theta> + 360 * of_int n))
           \<and> \<bar>dbl (\<theta> + 360 * of_int n) - (\<theta> + 360 * of_int n)\<bar> \<le> 1 / 2 ^ 31
           \<and> (\<forall>j. \<bar>\<theta> + 360 * of_int n - D\<bar> \<le> \<bar>\<theta> + 360 * of_int j - D\<bar> + 1 / 2 ^ 40)"
proof -
  from v have "- (2 ^ 31) \<le> s" "s < 2 ^ 31" unfolding valid_steps_def by simp_all
  then have "- 2147483648 \<le> s" "s < 2147483648" by simp_all
  from stage_degrees[OF this] obtain D where D: "steps_to_degrees 0 s = Some D"
    and Db: "\<bar>D\<bar> \<le> 2097152" by blast
  define n0 where "n0 = \<lfloor>D / 360\<rfloor>"
  define R where "R = D - 360 * of_int n0"
  from py_mod_360[OF Db] obtain md where md: "py_mod D 360 = Some md"
    and md2: "\<bar>md - R\<bar> \<le> 1 / 17592186044416" unfolding R_def n0_def by blast
  have fd: "py_floordiv D 360 = Some (of_int n0)"
    unfolding n0_def by (rule py_floordiv_360[OF Db])
  have nb: "\<bar>n0\<bar> \<le> 5826" unfolding n0_def by (rule floor_360_bound(1)[OF Db])
  have R0: "0 \<le> R" and R1: "R < 360"
  proof -
    have "of_int n0 \<le> D / 360" "D / 360 < of_int n0 + 1" unfolding n0_def by linarith+
    then show "0 \<le> R" "R < 360" by (simp_all add: R_def field_simps)
  qed
  define diff where "diff = dbl (md - \<theta>)"
  define q where "q = dbl (diff / 360)"
  define k where "k = py_round q"
  define n where "n = n0 + k"
  have diff_0: "\<bar>md - \<theta>\<bar> \<le> 361" using md2 R0 R1 t0 t1 by linarith
  have diff_1: "fl (md - \<theta>) = Some diff"
    unfolding diff_def by (rule round_ok[OF diff_0]) simp
  have diff_2: "\<bar>diff - (md - \<theta>)\<bar> \<le> 1 / 17592186044416"
    unfolding diff_def by (rule round_err[OF diff_0]) simp_all
  have q_0: "\<bar>diff / 360\<bar> \<le> 2" using diff_2 diff_0 by linarith
  have q_1: "fl (diff / 360) = Some q"
    unfolding q_def by (rule round_ok[OF q_0]) simp
  have q_2: "\<bar>q - diff / 360\<bar> \<le> 1 / 2251799813685248"
    unfolding q_def by (rule round_err[OF q_0]) simp_all
  have k_2: "\<bar>real_of_int k - q\<bar> \<le> 1 / 2" unfolding k_def py_round_def by (rule rne_error)
  have "\<bar>real_of_int k\<bar> < 3" using k_2 q_2 q_0 by linarith
  then have kb: "\<bar>k\<bar> \<le> 2" by linarith
  then have "\<bar>k\<bar> < 2 ^ 53" by simp
  from float_of_int_exact[OF this] have k_1: "float_of_int (py_round q) = Some (of_int k)"
    unfolding k_def .
  have "\<bar>n\<bar> < 2 ^ 53" unfolding n_def using nb kb by simp
  from fl_of_int[OF this] have n_1: "fl (real_of_int n0 + real_of_int k) = Some (of_int n)"
    by (simp add: n_def)
  have "\<bar>n * 360\<bar> < 2 ^ 53" unfolding n_def using nb kb by simp
  from fl_of_int[OF this] have p_1: "fl (real_of_int n * 360) = Some (360 * of_int n)"
    by (simp add: mult.commute)
  have "\<bar>real_of_int n\<bar> \<le> 5828" unfolding n_def using nb kb by simp
  then have t_0: "\<bar>\<theta> + 360 * of_int n\<bar> \<le> 2098440" using t0 t1 by linarith
  have t_1: "fl (\<theta> + 360 * of_int n) = Some (dbl (\<theta> + 360 * of_int n))"
    by (rule round_ok[OF t_0]) simp
  have t_2: "\<bar>dbl (\<theta> + 360 * of_int n) - (\<theta> + 360 * of_int n)\<bar> \<le> 1 / 2147483648"
    by (rule round_err[OF t_0]) simp_all
  have run: "stage_motor_degrees s \<theta> = Some (dbl (\<theta> + 360 * of_int n))"
    unfolding stage_motor_degrees_def
    by (simp only: D fd md fsub_def fdiv_def fadd_def fmul_def diff_1 q_1 k_1 n_1 p_1 t_1
        Option.bind.simps if_False refl numeral_neq_zero zero_neq_numeral)
  define X where "X = \<theta> + 360 * of_int n - D"
  have XR: "X = 360 * of_int k - (R - \<theta>)" by (simp add: X_def R_def n_def algebra_simps)
  have Xb: "\<bar>X\<bar> \<le> 180 + 1 / 2199023255552"
    unfolding XR using k_2 q_2 diff_2 md2 by linarith
  have near: "\<bar>\<theta> + 360 * of_int n - D\<bar> \<le> \<bar>\<theta> + 360 * of_int j - D\<bar> + 1 / 2 ^ 40" for j
  proof -
    have "\<theta> + 360 * of_int j - D = X + 360 * of_int (j - n)" by (simp add: X_def algebra_simps)
    with nearest_of_half_turn[OF Xb, of "j - n"] show ?thesis unfolding X_def by simp
  qed
  from D run t_2 near show ?thesis by (intro exI[of _ D] exI[of _ n]) simp
qed

text \<open>A stage five turns from its zero, and a requested azimuth of a tenth of a degree.\<close>

lemma dbl_tenth: "dbl (1 / 10) = 3602879701896397 / 36028797018963968"
  by (simp add: float_defs)

lemma example_fmod: "fmod 1800 360 = 0"
  by (simp add: fmod_def py_int_def)

lemma example_mod: "py_mod 1800 360 = Some 0"
  by (simp add: py_mod_def example_fmod)

lemma example_floordiv: "py_floordiv 1800 360 = Some 5"
  apply (simp only: py_floordiv_def Let_def example_fmod)
  apply (simp add: float_defs cong: bind_weak_cong)
  done

lemma example_degrees: "steps_to_degrees 0 3544195 = Some 1800"
  by (simp add: steps_to_degrees_axis STAGE_STEPS_PER_REVOLUTION_def float_defs
      cong: bind_weak_cong)

lemma example_diff: "fsub 0 (3602879701896397 / 36028797018963968) = Some (- (3602879701896397 / 36028797018963968))"
  by (simp add: float_defs)

lemma example_round: "Option.bind (fdiv (- (3602879701896397 / 36028797018963968)) 360) (\<lambda>q. float_of_int (py_round q)) = Some 0"
  by (simp add: py_round_def float_defs cong: bind_weak_cong)

lemma example_target: "fadd 5 0 = Some 5" "fmul 5 360 = Some 1800"
  "fadd (3602879701896397 / 36028797018963968) 1800 = Some (3958461762319155 / 2199023255552)"
  by (simp_all add: float_defs)

lemma bind_assoc_opt: "Option.bind (Option.bind x f) g = Option.bind x (\<lambda>y. Option.bind (f y) g)"
  by (cases x) simp_all

lemma stage_target_example:
  "stage_motor_degrees 3544195 (dbl (1 / 10)) = Some (3958461762319155 / 2199023255552)"
  unfolding stage_motor_degrees_def
  apply (simp only: example_degrees example_mod example_floordiv dbl_tenth example_diff Option.bind.simps)
  apply (simp only: bind_assoc_opt[symmetric] example_round example_target Option.bind.simps)
  done

theorem stage_target_nearest_revolution_witness:
  "valid_steps 0 3544195 \<and> 0 \<le> dbl (1 / 10) \<and> dbl (1 / 10) < 360 \<and>
   (\<exists>D n. steps_to_degrees 0 3544195 = Some D
      \<and> stage_motor_degrees 3544195 (dbl (1 / 10)) = Some (dbl (dbl (1 / 10) + 360 * of_int n))
      \<and> \<bar>dbl (dbl (1 / 10) + 360 * of_int n) - (dbl (1 / 10) + 360 * of_int n)\<bar> \<le> 1 / 2 ^ 31
      \<and> (\<forall>j. \<bar>dbl (1 / 10) + 360 * of_int n - D\<bar>
               \<le> \<bar>dbl (1 / 10) + 360 * of_int j - D\<bar> + 1 / 2 ^ 40))"
proof -
  have v: "valid_steps 0 3544195" by (simp add: valid_steps_def)
  have a: "0 \<le> dbl (1 / 10)" and b: "dbl (1 / 10) < 360" by (simp_all add: dbl_tenth)
  from v a b stage_target_nearest_revolution[OF v a b] show ?thesis by (intro conjI)
qed

text \<open>
  The congruence is not exact. With the stage at 3544195 steps (\<open>D = 1800\<close>, five turns) and
  \<open>\<theta>\<close> the double \<open>0.1\<close>, the target is the double \<open>1800.1\<close>: the sum \<open>\<theta> + 1800\<close> is no
  double and is rounded. The distance of the target from \<open>\<theta>\<close> is a little less than 1800,
  no multiple of 360: divided by 360 it is no integer.
\<close>

theorem stage_target_not_congruent:
  "valid_steps 0 3544195 \<and> 0 \<le> dbl (1 / 10) \<and> dbl (1 / 10) < 360 \<and>
   stage_motor_degrees 3544195 (dbl (1 / 10)) = Some (3958461762319155 / 2199023255552) \<and>
   real_of_int \<lfloor>(3958461762319155 / 2199023255552 - dbl (1 / 10)) / 360\<rfloor>
     \<noteq> (3958461762319155 / 2199023255552 - dbl (1 / 10)) / 360"
proof -
  have "valid_steps 0 3544195" by (simp add: valid_steps_def)
  moreover have "0 \<le> dbl (1 / 10)" "dbl (1 / 10) < 360" by (simp_all add: dbl_tenth)
  moreover note stage_target_example
  moreover have "real_of_int \<lfloor>(3958461762319155 / 2199023255552 - dbl (1 / 10)) / 360\<rfloor>
     \<noteq> (3958461762319155 / 2199023255552 - dbl (1 / 10)) / 360"
    by (simp add: dbl_tenth)
  ultimately show ?thesis by (intro conjI)
qed

end
